theory Spec2Isabelle
  imports Main "HOL-Library.Word" "HOL-Library.Multiset"
begin

unbundle bit_operations_syntax

section \<open>The class-unload tracker of the JDWP agent (classTrack.c)\<close>

text \<open>
  The module keeps three file-level variables: \<open>list\<close>, the head of a singly linked list of
  \<open>KlassNode\<close>s; \<open>trackingEnv\<close>, the JVMTI environment whose tags mark the tracked classes;
  and \<open>currentKlassTag\<close>, the last tag handed out. The nodes live in memory obtained from
  \<open>jvmtiAllocate\<close>, so the model has an explicit store of nodes and the list is a chain of
  addresses in it. The functions of the host (JVMTI, the allocator, the signature lookup) are
  parameters of the model, collected in the record \<open>host\<close>. A call that ends the process
  (\<open>EXIT_ERROR\<close>) returns \<open>Inl\<close> of the reason.
\<close>

subsection \<open>Data\<close>

type_synonym jlong = "64 word"
type_synonym jint = "32 word"
type_synonym jclass = nat
type_synonym addr = nat

text \<open>\<open>jlong\<close> arithmetic is two's complement on 64 bits: \<open>++currentKlassTag\<close> wraps around.\<close>

datatype jvmtiError =
    JVMTI_ERROR_NONE
  | JVMTI_ERROR nat
  | AGENT_ERROR_INTERNAL
  | AGENT_ERROR_OUT_OF_MEMORY

text \<open>
  The ways a call does not return: \<open>EXIT_ERROR(error, msg)\<close>, and the use of a pointer that is
  \<open>NULL\<close> or does not point to a node (which C leaves undefined; the model stops there).
\<close>

datatype fatal =
    EXIT_ERROR jvmtiError string
  | INVALID_POINTER

text \<open>\<open>struct KlassNode\<close>; a pointer is an address or \<open>NULL\<close> (\<open>None\<close>).\<close>

record KlassNode =
  klass_tag :: jlong
  signature :: string
  "next" :: "addr option"

type_synonym node_store = "addr \<rightharpoonup> KlassNode"

text \<open>
  The state of the module: the three static variables (\<open>list\<close> is called \<open>klass_list\<close> here),
  the store of allocated nodes, and the messages of the assertions that have failed so far.
  \<open>'env\<close> is the state of a JVMTI environment, which only the host can read.
\<close>

record 'env tracker =
  node_heap :: node_store
  klass_list :: "addr option"
  trackingEnv :: "'env option"
  currentKlassTag :: jlong
  assertions_failed :: "string list"

text \<open>The output collection of \<open>bag.h\<close>, holding signatures in the order they were added.\<close>

type_synonym bag = "string list"

text \<open>
  What the module asks of its host. \<open>GetTag\<close>, \<open>SetTag\<close> and \<open>GetObjectsWithTags\<close> are the
  JVMTI functions called through \<open>JVMTI_FUNC_PTR(trackingEnv, ...)\<close>; each returns its error
  code together with its result. \<open>assertOn\<close> is \<open>gdata->assertOn\<close>. \<open>jvmtiAllocate\<close> is given
  the store and returns the address of the new node or \<open>NULL\<close>. \<open>bagCreateBag_ok\<close> and
  \<open>bagAdd_ok\<close> say whether the allocations of the bag succeed, and \<open>assertFatal\<close> whether a
  failed assertion ends the process (\<open>Some f\<close>, with the way it ends) or returns (\<open>None\<close>).
  \<open>WITH_LOCAL_REFS\<close> is the outcome of the macro of that name (util.h, not among the
  sources), which opens a frame of JNI local references: \<open>None\<close> when it goes on, \<open>Some f\<close>
  when it ends the process.
\<close>

record 'env host =
  assertOn :: bool
  assertFatal :: "fatal option"
  getSpecialJvmti :: "'env option"
  GetTag :: "'env \<Rightarrow> jclass \<Rightarrow> jvmtiError \<times> jlong"
  SetTag :: "'env \<Rightarrow> jclass \<Rightarrow> jlong \<Rightarrow> jvmtiError \<times> 'env"
  GetObjectsWithTags :: "'env \<Rightarrow> jlong \<Rightarrow> jvmtiError \<times> jint"
  classSignature :: "jclass \<Rightarrow> jvmtiError \<times> string"
  classStatus :: "jclass \<Rightarrow> jint"
  allLoadedClasses :: "jvmtiError \<times> jclass list"
  jvmtiAllocate :: "node_store \<Rightarrow> addr option"
  bagCreateBag_ok :: bool
  bagAdd_ok :: "bag \<Rightarrow> bool"
  WITH_LOCAL_REFS :: "fatal option"

subsection \<open>Parts of the agent that are not in the two source files\<close>

text \<open>
  Modelled from the spec: \<open>bagCreateBag\<close> and \<open>bagAdd\<close> (bag.c) are missing. The spec calls the
  bag a growable container of signature strings; creating it gives the empty container or
  \<open>NULL\<close> when its memory cannot be had.
\<close>

definition bagCreateBag :: "'env host \<Rightarrow> bag option" where
  "bagCreateBag h = (if bagCreateBag_ok h then Some [] else None)"

text \<open>
  Modelled from the spec: \<open>bagAdd\<close> followed by the store \<open>*sigSpot = node->signature\<close> into the
  slot it returns: the item is added at the end, or \<open>bagAdd\<close> returns \<open>NULL\<close> when the bag
  cannot grow.
\<close>

definition bagAdd :: "'env host \<Rightarrow> bag \<Rightarrow> string \<Rightarrow> bag option" where
  "bagAdd h signatures item = (if bagAdd_ok h signatures then Some (signatures @ [item]) else None)"

text \<open>
  Modelled from the spec: the macro \<open>JDI_ASSERT_FAILED\<close> (util.h) is missing. The spec calls a
  duplicate insertion a contract violation that an assertion checks, and does not say whether
  a failed assertion ends the process: that is the host's \<open>assertFatal\<close>. When the macro
  returns, the message is kept in \<open>assertions_failed\<close>.
\<close>

definition JDI_ASSERT_FAILED :: "'env host \<Rightarrow> string \<Rightarrow> 'env tracker \<Rightarrow> fatal + 'env tracker" where
  "JDI_ASSERT_FAILED h msg s =
     (case assertFatal h of
        Some f \<Rightarrow> Inl f
      | None \<Rightarrow> Inr (s\<lparr>assertions_failed := assertions_failed s @ [msg]\<rparr>))"

text \<open>
  Modelled from the spec: the class status bits of jvmti.h, which the spec calls "prepared"
  and "is-array"; the values are those of the JVMTI specification.
\<close>

definition JVMTI_CLASS_STATUS_PREPARED :: jint where
  "JVMTI_CLASS_STATUS_PREPARED = 2"

definition JVMTI_CLASS_STATUS_ARRAY :: jint where
  "JVMTI_CLASS_STATUS_ARRAY = 16"

subsection \<open>deleteList\<close>

text \<open>
  The loop of \<open>deleteList\<close>: the signature of each node goes into the bag, then the node is
  given back with \<open>jvmtiDeallocate\<close>. The loop follows pointers, so it is a partial function:
  \<open>None\<close> is a run that does not end.
\<close>

partial_function (option) deleteList_loop ::
  "'env host \<Rightarrow> 'env tracker \<Rightarrow> bag \<Rightarrow> addr option \<Rightarrow> (fatal + 'env tracker \<times> bag) option"
where
  "deleteList_loop h s signatures node =
     (case node of
        None \<Rightarrow> Some (Inr (s, signatures))
      | Some a \<Rightarrow>
          (case node_heap s a of
             None \<Rightarrow> Some (Inl INVALID_POINTER)
           | Some n \<Rightarrow>
               (case bagAdd h signatures (signature n) of
                  None \<Rightarrow> Some (Inl (EXIT_ERROR AGENT_ERROR_OUT_OF_MEMORY ''signature bag''))
                | Some signatures' \<Rightarrow>
                    deleteList_loop h (s\<lparr>node_heap := (node_heap s)(a := None)\<rparr>)
                      signatures' (next n))))"

definition deleteList ::
  "'env host \<Rightarrow> 'env tracker \<Rightarrow> addr option \<Rightarrow> (fatal + 'env tracker \<times> bag) option"
where
  "deleteList h s node =
     (case bagCreateBag h of
        None \<Rightarrow> Some (Inl (EXIT_ERROR AGENT_ERROR_OUT_OF_MEMORY ''signatures''))
      | Some signatures \<Rightarrow> deleteList_loop h s signatures node)"

subsection \<open>isClassUnloaded\<close>

definition isClassUnloaded :: "'env host \<Rightarrow> 'env tracker \<Rightarrow> jlong \<Rightarrow> fatal + bool" where
  "isClassUnloaded h s tag =
     (case trackingEnv s of
        None \<Rightarrow> Inl INVALID_POINTER
      | Some env \<Rightarrow>
          (case GetObjectsWithTags h env tag of
             (error, res_count) \<Rightarrow>
               if error \<noteq> JVMTI_ERROR_NONE
               then Inl (EXIT_ERROR error ''Failed GetObjectsWithTags for class tracking'')
               else if res_count \<noteq> 0 \<and> res_count \<noteq> 1
               then Inl (EXIT_ERROR AGENT_ERROR_INTERNAL ''Unexpected extra tags in trackingEnv!'')
               else Inr (res_count = 0)))"

subsection \<open>classTrack_processUnloads\<close>

text \<open>
  \<open>KlassNode** previousNext\<close> points either at the variable \<open>list\<close> or at the \<open>next\<close> field of
  a node.
\<close>

datatype slot = List_var | Next_of addr

definition read_slot :: "'env tracker \<Rightarrow> slot \<Rightarrow> fatal + addr option" where
  "read_slot s p =
     (case p of
        List_var \<Rightarrow> Inr (klass_list s)
      | Next_of a \<Rightarrow> (case node_heap s a of None \<Rightarrow> Inl INVALID_POINTER | Some n \<Rightarrow> Inr (next n)))"

definition write_slot :: "'env tracker \<Rightarrow> slot \<Rightarrow> addr option \<Rightarrow> fatal + 'env tracker" where
  "write_slot s p v =
     (case p of
        List_var \<Rightarrow> Inr (s\<lparr>klass_list := v\<rparr>)
      | Next_of a \<Rightarrow>
          (case node_heap s a of
             None \<Rightarrow> Inl INVALID_POINTER
           | Some n \<Rightarrow> Inr (s\<lparr>node_heap := (node_heap s)(a \<mapsto> n\<lparr>next := v\<rparr>)\<rparr>)))"

text \<open>
  The filtering loop, with its local variables \<open>toDeleteList\<close>, \<open>node\<close> and \<open>previousNext\<close> as
  arguments (\<open>anyRemoved\<close> is written and never read). The three assignments of the first
  branch and the assignment \<open>node = *previousNext\<close> are made in the order of the source.
\<close>

partial_function (option) processUnloads_loop ::
  "'env host \<Rightarrow> 'env tracker \<Rightarrow> addr option \<Rightarrow> addr option \<Rightarrow> slot
     \<Rightarrow> (fatal + 'env tracker \<times> addr option) option"
where
  "processUnloads_loop h s toDeleteList node previousNext =
     (case node of
        None \<Rightarrow> Some (Inr (s, toDeleteList))
      | Some a \<Rightarrow>
          (case node_heap s a of
             None \<Rightarrow> Some (Inl INVALID_POINTER)
           | Some n \<Rightarrow>
               (case isClassUnloaded h s (klass_tag n) of
                  Inl f \<Rightarrow> Some (Inl f)
                | Inr unloaded \<Rightarrow>
                    if unloaded then
                      (case write_slot s previousNext (next n) of
                         Inl f \<Rightarrow> Some (Inl f)
                       | Inr s1 \<Rightarrow>
                           (case write_slot s1 (Next_of a) toDeleteList of
                              Inl f \<Rightarrow> Some (Inl f)
                            | Inr s2 \<Rightarrow>
                                (case read_slot s2 previousNext of
                                   Inl f \<Rightarrow> Some (Inl f)
                                 | Inr node' \<Rightarrow>
                                     processUnloads_loop h s2 (Some a) node' previousNext)))
                    else
                      (case read_slot s (Next_of a) of
                         Inl f \<Rightarrow> Some (Inl f)
                       | Inr node' \<Rightarrow>
                           processUnloads_loop h s toDeleteList node' (Next_of a)))))"

definition classTrack_processUnloads ::
  "'env host \<Rightarrow> 'env tracker \<Rightarrow> (fatal + 'env tracker \<times> bag) option"
where
  "classTrack_processUnloads h s =
     (case processUnloads_loop h s None (klass_list s) List_var of
        None \<Rightarrow> None
      | Some (Inl f) \<Rightarrow> Some (Inl f)
      | Some (Inr (s', toDeleteList)) \<Rightarrow> deleteList h s' toDeleteList)"

subsection \<open>classTrack_addPreparedClass\<close>

text \<open>
  The fields of the new node are written one by one in the source; the model puts the node
  into the store once they are all known. On the paths that free the node and exit there is
  no state left to return.
\<close>

definition classTrack_addPreparedClass ::
  "'env host \<Rightarrow> 'env tracker \<Rightarrow> jclass \<Rightarrow> fatal + 'env tracker"
where
  "classTrack_addPreparedClass h s klass =
     (case
        (if assertOn h then
           (case trackingEnv s of
              None \<Rightarrow> Inl INVALID_POINTER
            | Some env \<Rightarrow>
                (case GetTag h env klass of
                   (error, tag) \<Rightarrow>
                     if error \<noteq> JVMTI_ERROR_NONE
                     then Inl (EXIT_ERROR error ''unable to get-tag with class trackingEnv!'')
                     else if tag \<noteq> 0
                     then JDI_ASSERT_FAILED h ''Attempting to insert duplicate class'' s
                     else Inr s))
         else Inr s)
      of
        Inl f \<Rightarrow> Inl f
      | Inr s1 \<Rightarrow>
          (case jvmtiAllocate h (node_heap s1) of
             None \<Rightarrow> Inl (EXIT_ERROR AGENT_ERROR_OUT_OF_MEMORY ''KlassNode'')
           | Some node \<Rightarrow>
               (case classSignature h klass of
                  (error, sig) \<Rightarrow>
                    if error \<noteq> JVMTI_ERROR_NONE then Inl (EXIT_ERROR error ''signature'')
                    else
                      let s2 = s1\<lparr>currentKlassTag := currentKlassTag s1 + 1\<rparr>;
                          tag = currentKlassTag s2
                      in
                        (case trackingEnv s2 of
                           None \<Rightarrow> Inl INVALID_POINTER
                         | Some env \<Rightarrow>
                             (case SetTag h env klass tag of
                                (error, env') \<Rightarrow>
                                  if error \<noteq> JVMTI_ERROR_NONE then Inl (EXIT_ERROR error ''SetTag'')
                                  else
                                    Inr (s2\<lparr>trackingEnv := Some env',
                                            node_heap := (node_heap s2)(node \<mapsto>
                                              \<lparr>klass_tag = tag, signature = sig,
                                               next = klass_list s2\<rparr>),
                                            klass_list := Some node\<rparr>))))))"

subsection \<open>classTrack_initialize\<close>

text \<open>
  The \<open>for\<close> loop over the array of loaded classes. \<open>jvmtiDeallocate(classes)\<close> and
  \<open>END_WITH_LOCAL_REFS\<close> after it change nothing the module keeps.
\<close>

fun initialize_loop :: "'env host \<Rightarrow> jclass list \<Rightarrow> 'env tracker \<Rightarrow> fatal + 'env tracker" where
  "initialize_loop h [] s = Inr s"
| "initialize_loop h (klass # classes) s =
     (let wanted = JVMTI_CLASS_STATUS_PREPARED OR JVMTI_CLASS_STATUS_ARRAY;
          status = classStatus h klass
      in
        if (status AND wanted) \<noteq> 0 then
          (case classTrack_addPreparedClass h s klass of
             Inl f \<Rightarrow> Inl f
           | Inr s' \<Rightarrow> initialize_loop h classes s')
        else initialize_loop h classes s)"

definition classTrack_initialize :: "'env host \<Rightarrow> 'env tracker \<Rightarrow> fatal + 'env tracker" where
  "classTrack_initialize h s =
     (case getSpecialJvmti h of
        None \<Rightarrow> Inl (EXIT_ERROR AGENT_ERROR_INTERNAL ''Failed to allocate tag-tracking jvmtiEnv'')
      | Some env \<Rightarrow>
          (let s1 = s\<lparr>trackingEnv := Some env, currentKlassTag := 0, klass_list := None\<rparr>
           in
             (case WITH_LOCAL_REFS h of
                Some f \<Rightarrow> Inl f
              | None \<Rightarrow>
                  (case allLoadedClasses h of
                     (error, classes) \<Rightarrow>
                       if error = JVMTI_ERROR_NONE then initialize_loop h classes s1
                       else Inl (EXIT_ERROR error ''loaded classes array'')))))"

subsection \<open>classTrack_reset\<close>

text \<open>The body of \<open>classTrack_reset\<close> is empty.\<close>

definition classTrack_reset :: "'env tracker \<Rightarrow> 'env tracker" where
  "classTrack_reset s = s"

section \<open>What the claims speak about\<close>

subsection \<open>The registry as a list of records\<close>

text \<open>
  A tracked record is a node seen from outside: the address it lives at, its tag and its
  signature. \<open>klass_seg hp p rs q\<close> holds when, in the store \<open>hp\<close>, following \<open>next\<close> from
  the pointer \<open>p\<close> visits exactly the records \<open>rs\<close>, in this order, and arrives at \<open>q\<close>.
  The registry of a state is the chain from \<open>list\<close> to \<open>NULL\<close>.
\<close>

type_synonym tracked = "addr \<times> jlong \<times> string"

definition tag_of :: "tracked \<Rightarrow> jlong" where "tag_of r = fst (snd r)"

definition signature_of :: "tracked \<Rightarrow> string" where "signature_of r = snd (snd r)"

fun klass_seg :: "node_store \<Rightarrow> addr option \<Rightarrow> tracked list \<Rightarrow> addr option \<Rightarrow> bool" where
  "klass_seg hp p [] q = (p = q)"
| "klass_seg hp p (r # rs) q =
     (p = Some (fst r) \<and>
      (case hp (fst r) of
         None \<Rightarrow> False
       | Some n \<Rightarrow> klass_tag n = tag_of r \<and> signature n = signature_of r \<and> klass_seg hp (next n) rs q))"

definition registry :: "'env tracker \<Rightarrow> tracked list \<Rightarrow> bool" where
  "registry s rs = klass_seg (node_heap s) (klass_list s) rs None"

text \<open>
  The slot \<open>previousNext\<close> points at after the records \<open>ps\<close> have been kept: the variable
  \<open>list\<close>, or the \<open>next\<close> field of the last one. \<open>same_globals\<close> says that two states differ
  at most in the store and in \<open>list\<close>.
\<close>

definition slot_after :: "tracked list \<Rightarrow> slot" where
  "slot_after ps = (if ps = [] then List_var else Next_of (fst (last ps)))"

definition same_globals :: "'env tracker \<Rightarrow> 'env tracker \<Rightarrow> bool" where
  "same_globals s s' =
     (trackingEnv s' = trackingEnv s \<and> currentKlassTag s' = currentKlassTag s \<and>
      assertions_failed s' = assertions_failed s \<and> tracker.more s' = tracker.more s)"

subsection \<open>The answers of the oracle\<close>

text \<open>
  What \<open>isClassUnloaded\<close> makes of the oracle's answer for the tag of a record, and the
  two answers the module expects from \<open>GetObjectsWithTags\<close>: no error and a count of 0, or no
  error and a count of 1.
\<close>

definition reported_unloaded :: "'env host \<Rightarrow> 'env tracker \<Rightarrow> tracked \<Rightarrow> bool" where
  "reported_unloaded h s r = (isClassUnloaded h s (tag_of r) = Inr True)"

definition reported_live :: "'env host \<Rightarrow> 'env tracker \<Rightarrow> tracked \<Rightarrow> bool" where
  "reported_live h s r = (isClassUnloaded h s (tag_of r) = Inr False)"

definition answers_ok :: "'env host \<Rightarrow> 'env tracker \<Rightarrow> tracked list \<Rightarrow> bool" where
  "answers_ok h s rs = (\<forall>r \<in> set rs. reported_unloaded h s r \<or> reported_live h s r)"

definition oracle_unloaded :: "'env host \<Rightarrow> 'env \<Rightarrow> tracked \<Rightarrow> bool" where
  "oracle_unloaded h env r = (GetObjectsWithTags h env (tag_of r) = (JVMTI_ERROR_NONE, 0))"

definition oracle_live :: "'env host \<Rightarrow> 'env \<Rightarrow> tracked \<Rightarrow> bool" where
  "oracle_live h env r = (GetObjectsWithTags h env (tag_of r) = (JVMTI_ERROR_NONE, 1))"

definition unloaded_records :: "'env host \<Rightarrow> 'env tracker \<Rightarrow> tracked list \<Rightarrow> tracked list" where
  "unloaded_records h s rs = filter (reported_unloaded h s) rs"

definition live_records :: "'env host \<Rightarrow> 'env tracker \<Rightarrow> tracked list \<Rightarrow> tracked list" where
  "live_records h s rs = filter (reported_live h s) rs"

subsection \<open>What a pass establishes\<close>

text \<open>
  \<open>bag_grows h b xs\<close>: every \<open>bagAdd\<close> succeeds while the items \<open>xs\<close> are added to the bag
  \<open>b\<close>. \<open>release ds s\<close> is \<open>s\<close> after the nodes of the records \<open>ds\<close> have been deallocated.
  \<open>loop_post\<close> describes the result of the filtering loop started in the middle of the
  chain, with \<open>ps\<close> kept so far, \<open>rs\<close> still to visit and \<open>ds\<close> on the list to delete;
  \<open>pass_post\<close> describes the result of the whole of \<open>classTrack_processUnloads\<close>.
\<close>

fun bag_grows :: "'env host \<Rightarrow> bag \<Rightarrow> string list \<Rightarrow> bool" where
  "bag_grows h b [] = True"
| "bag_grows h b (x # xs) = (bagAdd_ok h b \<and> bag_grows h (b @ [x]) xs)"

definition release :: "tracked list \<Rightarrow> 'env tracker \<Rightarrow> 'env tracker" where
  "release ds s = s\<lparr>node_heap := (\<lambda>b. if b \<in> fst ` set ds then None else node_heap s b)\<rparr>"

definition loop_post ::
  "'env host \<Rightarrow> 'env tracker \<Rightarrow> tracked list \<Rightarrow> tracked list \<Rightarrow> tracked list
     \<Rightarrow> fatal + 'env tracker \<times> addr option \<Rightarrow> bool"
where
  "loop_post h s ps rs ds res =
     (case res of
        Inl f \<Rightarrow> (\<exists>r \<in> set rs. isClassUnloaded h s (tag_of r) = Inl f)
      | Inr (s', toDel') \<Rightarrow>
          answers_ok h s rs \<and>
          klass_seg (node_heap s') (klass_list s') (ps @ filter (reported_live h s) rs) None \<and>
          klass_seg (node_heap s') toDel' (rev (filter (reported_unloaded h s) rs) @ ds) None \<and>
          (\<forall>b. b \<notin> fst ` set (ps @ rs @ ds) \<longrightarrow> node_heap s' b = node_heap s b) \<and>
          dom (node_heap s') = dom (node_heap s) \<and> same_globals s s')"

definition pass_post ::
  "'env host \<Rightarrow> 'env tracker \<Rightarrow> tracked list \<Rightarrow> fatal + 'env tracker \<times> bag \<Rightarrow> bool"
where
  "pass_post h s rs res =
     (case res of
        Inl f \<Rightarrow>
          (\<exists>r \<in> set rs. isClassUnloaded h s (tag_of r) = Inl f) \<or>
          answers_ok h s rs \<and> \<not> bagCreateBag_ok h \<and>
            f = EXIT_ERROR AGENT_ERROR_OUT_OF_MEMORY ''signatures'' \<or>
          answers_ok h s rs \<and> bagCreateBag_ok h \<and>
            \<not> bag_grows h [] (map signature_of (rev (unloaded_records h s rs))) \<and>
            f = EXIT_ERROR AGENT_ERROR_OUT_OF_MEMORY ''signature bag''
      | Inr (s', signatures) \<Rightarrow>
          answers_ok h s rs \<and> bagCreateBag_ok h \<and>
          bag_grows h [] (map signature_of (rev (unloaded_records h s rs))) \<and>
          signatures = map signature_of (rev (unloaded_records h s rs)) \<and>
          registry s' (live_records h s rs) \<and>
          dom (node_heap s') = dom (node_heap s) - fst ` set (unloaded_records h s rs) \<and>
          (\<forall>b. b \<notin> fst ` set rs \<longrightarrow> node_heap s' b = node_heap s b) \<and>
          same_globals s s')"

subsection \<open>Insertions\<close>

text \<open>
  The node \<open>classTrack_addPreparedClass\<close> builds, and the property of an allocator never to
  hand out memory that is in use.
\<close>

definition new_node :: "'env tracker \<Rightarrow> string \<Rightarrow> KlassNode" where
  "new_node s sg = \<lparr>klass_tag = currentKlassTag s + 1, signature = sg, next = klass_list s\<rparr>"

definition sound_allocator :: "'env host \<Rightarrow> bool" where
  "sound_allocator h = (\<forall>hp a. jvmtiAllocate h hp = Some a \<longrightarrow> hp a = None)"

text \<open>
  The test of the initialization loop in the words of the spec: the status has the
  "prepared" flag or the "is-array" flag. \<open>add_all\<close> inserts classes one after the other
  with the add operation, as the spec describes the initial pass. \<open>numbered c xs\<close> pairs
  the items \<open>xs\<close> with the tags that follow \<open>c\<close>, and \<open>tagged_env\<close> is the JVMTI environment
  after the classes have been given these tags.
\<close>

definition has_flag :: "jint \<Rightarrow> jint \<Rightarrow> bool" where
  "has_flag status flag = (status AND flag \<noteq> 0)"

definition wanted_class :: "'env host \<Rightarrow> jclass \<Rightarrow> bool" where
  "wanted_class h klass =
     (has_flag (classStatus h klass) JVMTI_CLASS_STATUS_PREPARED \<or>
      has_flag (classStatus h klass) JVMTI_CLASS_STATUS_ARRAY)"

fun add_all :: "'env host \<Rightarrow> jclass list \<Rightarrow> 'env tracker \<Rightarrow> fatal + 'env tracker" where
  "add_all h [] s = Inr s"
| "add_all h (klass # classes) s =
     (case classTrack_addPreparedClass h s klass of
        Inl f \<Rightarrow> Inl f
      | Inr s' \<Rightarrow> add_all h classes s')"

fun numbered :: "jlong \<Rightarrow> 'a list \<Rightarrow> (jlong \<times> 'a) list" where
  "numbered c [] = []"
| "numbered c (x # xs) = (c + 1, x) # numbered (c + 1) xs"

fun tagged_env :: "'env host \<Rightarrow> 'env \<Rightarrow> jlong \<Rightarrow> jclass list \<Rightarrow> 'env" where
  "tagged_env h env c [] = env"
| "tagged_env h env c (klass # classes) =
     tagged_env h (snd (SetTag h env klass (c + 1))) (c + 1) classes"

subsection \<open>The life of the tracker\<close>

text \<open>
  After \<open>classTrack_initialize\<close> the agent calls \<open>classTrack_addPreparedClass\<close> and
  \<open>classTrack_processUnloads\<close> in any order; the host may answer differently at each call
  (classes are collected in between), so each call comes with the host as it is then.
\<close>

datatype 'env call = AddPreparedClass "'env host" jclass | ProcessUnloads "'env host"

fun run_calls :: "'env call list \<Rightarrow> 'env tracker \<Rightarrow> (fatal + 'env tracker) option" where
  "run_calls [] s = Some (Inr s)"
| "run_calls (AddPreparedClass h klass # calls) s =
     (case classTrack_addPreparedClass h s klass of
        Inl f \<Rightarrow> Some (Inl f)
      | Inr s' \<Rightarrow> run_calls calls s')"
| "run_calls (ProcessUnloads h # calls) s =
     (case classTrack_processUnloads h s of
        None \<Rightarrow> None
      | Some (Inl f) \<Rightarrow> Some (Inl f)
      | Some (Inr (s', signatures)) \<Rightarrow> run_calls calls s')"

definition lifetime ::
  "'env host \<Rightarrow> 'env call list \<Rightarrow> 'env tracker \<Rightarrow> (fatal + 'env tracker) option"
where
  "lifetime h0 calls s0 =
     (case classTrack_initialize h0 s0 of
        Inl f \<Rightarrow> Some (Inl f)
      | Inr s1 \<Rightarrow> run_calls calls s1)"

fun is_add :: "'env call \<Rightarrow> bool" where
  "is_add (AddPreparedClass h klass) = True"
| "is_add (ProcessUnloads h) = False"

fun host_of :: "'env call \<Rightarrow> 'env host" where
  "host_of (AddPreparedClass h klass) = h"
| "host_of (ProcessUnloads h) = h"

definition allocations :: "'env host \<Rightarrow> 'env call list \<Rightarrow> nat" where
  "allocations h0 calls =
     length (filter (wanted_class h0) (snd (allLoadedClasses h0))) + length (filter is_add calls)"

text \<open>
  To see the tags in the order they are handed out, a host is made to keep, next to the
  state of its JVMTI environment, the list of the tags \<open>SetTag\<close> was called with; nothing else
  of the host changes. \<open>lifetime_tags\<close> is that list at the end of a life that has not
  ended the process. \<open>first_tags n\<close> are the tags 1, 2, \<dots>, \<open>n\<close> as 64-bit values.
\<close>

definition recording :: "'env host \<Rightarrow> ('env \<times> jlong list) host" where
  "recording h =
     \<lparr>assertOn = assertOn h,
      assertFatal = assertFatal h,
      getSpecialJvmti = map_option (\<lambda>env. (env, [])) (getSpecialJvmti h),
      GetTag = (\<lambda>(env, tags). GetTag h env),
      SetTag = (\<lambda>(env, tags) klass tag.
        case SetTag h env klass tag of (error, env') \<Rightarrow> (error, (env', tags @ [tag]))),
      GetObjectsWithTags = (\<lambda>(env, tags). GetObjectsWithTags h env),
      classSignature = classSignature h,
      classStatus = classStatus h,
      allLoadedClasses = allLoadedClasses h,
      jvmtiAllocate = jvmtiAllocate h,
      bagCreateBag_ok = bagCreateBag_ok h,
      bagAdd_ok = bagAdd_ok h,
      WITH_LOCAL_REFS = WITH_LOCAL_REFS h\<rparr>"






definition tags_inv :: "nat \<Rightarrow> 'env tracker \<Rightarrow> bool" where
  "tags_inv n s =
     (\<exists>rs. registry s rs \<and>
        (\<forall>r \<in> set rs. \<exists>i. 0 < i \<and> i \<le> n \<and> tag_of r = of_nat i) \<and>
        currentKlassTag s = of_nat n)"



subsection \<open>A host and a state for concrete runs\<close>

text \<open>
  A small host: the state of its JVMTI environment is the table of the tags of the classes,
  \<open>live\<close> lists the classes that have not been collected, and memory has eight cells.
\<close>

definition demo_signature :: "jclass \<Rightarrow> string" where
  "demo_signature k =
     (if k = 1 then ''LA;'' else if k = 2 then ''LB;'' else if k = 3 then ''LC;'' else ''LD;'')"

definition demo_host :: "jclass list \<Rightarrow> (jclass \<Rightarrow> jlong) host" where
  "demo_host live =
     \<lparr>assertOn = True,
      assertFatal = None,
      getSpecialJvmti = Some (\<lambda>k. 0),
      GetTag = (\<lambda>env k. (JVMTI_ERROR_NONE, env k)),
      SetTag = (\<lambda>env k t. (JVMTI_ERROR_NONE, env(k := t))),
      GetObjectsWithTags =
        (\<lambda>env t. (JVMTI_ERROR_NONE, of_nat (length (filter (\<lambda>k. env k = t) live)))),
      classSignature = (\<lambda>k. (JVMTI_ERROR_NONE, demo_signature k)),
      classStatus = (\<lambda>k. if k = 0 then 1 else if k = 9 then 16 else 7),
      allLoadedClasses = (JVMTI_ERROR_NONE, [0, 1, 2, 3]),
      jvmtiAllocate = (\<lambda>hp. find (\<lambda>a. hp a = None) [1, 2, 3, 4, 5, 6, 7, 8]),
      bagCreateBag_ok = True,
      bagAdd_ok = (\<lambda>b. True),
      WITH_LOCAL_REFS = None\<rparr>"

text \<open>The variables of the module when the agent starts.\<close>

definition initial_tracker :: "'env tracker" where
  "initial_tracker =
     \<lparr>node_heap = Map.empty, klass_list = None, trackingEnv = None, currentKlassTag = 0,
      assertions_failed = []\<rparr>"

text \<open>The state with the classes 1, 2 and 3 tracked, inserted in that order.\<close>

definition demo_env :: "jclass \<Rightarrow> jlong" where
  "demo_env = (\<lambda>k. 0)(1 := 1, 2 := 2, 3 := 3)"

definition demo_tracker :: "(jclass \<Rightarrow> jlong) tracker" where
  "demo_tracker =
     \<lparr>node_heap =
        [1 \<mapsto> \<lparr>klass_tag = 1, signature = ''LA;'', next = None\<rparr>,
         2 \<mapsto> \<lparr>klass_tag = 2, signature = ''LB;'', next = Some 1\<rparr>,
         3 \<mapsto> \<lparr>klass_tag = 3, signature = ''LC;'', next = Some 2\<rparr>],
      klass_list = Some 3,
      trackingEnv = Some demo_env,
      currentKlassTag = 3,
      assertions_failed = []\<rparr>"

definition demo_records :: "tracked list" where
  "demo_records = [(3, 3, ''LC;''), (2, 2, ''LB;''), (1, 1, ''LA;'')]"

text \<open>A faulty oracle: it reports two live objects for the tag 2.\<close>

definition faulty_host :: "(jclass \<Rightarrow> jlong) host" where
  "faulty_host =
     (demo_host [1, 2, 3])\<lparr>GetObjectsWithTags :=
        (\<lambda>env t. (JVMTI_ERROR_NONE, if t = 2 then 2 else 1))\<rparr>"

text \<open>\<open>demo_tracker\<close> after the class 4 has been inserted.\<close>

definition demo_tracker_D :: "(jclass \<Rightarrow> jlong) tracker" where
  "demo_tracker_D =
     demo_tracker\<lparr>currentKlassTag := 4,
       trackingEnv := Some (demo_env(4 := 4)),
       node_heap := (node_heap demo_tracker)(4 \<mapsto>
         \<lparr>klass_tag = 4, signature = ''LD;'', next = Some 3\<rparr>),
       klass_list := Some 4\<rparr>"


definition demo_calls :: "(jclass \<Rightarrow> jlong) call list" where
  "demo_calls = [ProcessUnloads (demo_host [1, 3]), AddPreparedClass (demo_host [1, 3, 4]) 4]"

text \<open>
  A host in which every class is collected as soon as it has been prepared, so that one
  cell of memory is enough for any number of insertions; \<open>rounds h n\<close> is \<open>n\<close> times an
  insertion followed by a pass. \<open>collecting\<close> is what the runs below need of such a host
  and \<open>idle\<close> the state between two rounds.
\<close>

definition wrap_host :: "unit host" where
  "wrap_host =
     \<lparr>assertOn = False,
      assertFatal = None,
      getSpecialJvmti = Some (),
      GetTag = (\<lambda>env k. (JVMTI_ERROR_NONE, 0)),
      SetTag = (\<lambda>env k t. (JVMTI_ERROR_NONE, ())),
      GetObjectsWithTags = (\<lambda>env t. (JVMTI_ERROR_NONE, 0)),
      classSignature = (\<lambda>k. (JVMTI_ERROR_NONE, ''LA;'')),
      classStatus = (\<lambda>k. 2),
      allLoadedClasses = (JVMTI_ERROR_NONE, []),
      jvmtiAllocate = (\<lambda>hp. if hp 1 = None then Some 1 else None),
      bagCreateBag_ok = True,
      bagAdd_ok = (\<lambda>b. True),
      WITH_LOCAL_REFS = None\<rparr>"

definition rounds :: "'env host \<Rightarrow> nat \<Rightarrow> 'env call list" where
  "rounds h n = concat (replicate n [AddPreparedClass h 1, ProcessUnloads h])"

definition collecting :: "'env host \<Rightarrow> bool" where
  "collecting h =
     (\<not> assertOn h \<and>
      (\<forall>env k t. fst (SetTag h env k t) = JVMTI_ERROR_NONE) \<and>
      (\<forall>env t. GetObjectsWithTags h env t = (JVMTI_ERROR_NONE, 0)) \<and>
      (\<forall>k. fst (classSignature h k) = JVMTI_ERROR_NONE) \<and>
      jvmtiAllocate h = (\<lambda>hp. if hp 1 = None then Some 1 else None) \<and>
      bagCreateBag_ok h \<and> (\<forall>b. bagAdd_ok h b))"

definition idle :: "'env tracker \<Rightarrow> bool" where
  "idle s = (klass_list s = None \<and> node_heap s 1 = None \<and> trackingEnv s \<noteq> None)"



section \<open>Chains of nodes and the filtering loop\<close>

lemma klass_seg_append:
  "klass_seg hp p (xs @ ys) q = (\<exists>m. klass_seg hp p xs m \<and> klass_seg hp m ys q)"
  by (induction xs arbitrary: p) (auto split: option.splits)

lemma klass_seg_frame:
  "a \<notin> fst ` set rs \<Longrightarrow> klass_seg (hp(a := v)) p rs q = klass_seg hp p rs q"
  by (induction rs arbitrary: p) (auto split: option.splits)

lemma klass_seg_None: "klass_seg hp None rs q \<Longrightarrow> rs = [] \<and> q = None"
  by (cases rs) auto

lemma klass_seg_unique:
  "klass_seg hp p xs None \<Longrightarrow> klass_seg hp p ys None \<Longrightarrow> xs = ys"
proof (induction xs arbitrary: p ys)
  case Nil
  then show ?case by (cases ys) auto
next
  case (Cons x xs)
  then obtain y ys' where ys: "ys = y # ys'" by (cases ys) auto
  with Cons.prems have "fst x = fst y" by simp
  with Cons.prems ys have "snd x = snd y"
    by (cases x; cases y) (auto simp: tag_of_def signature_of_def split: option.splits)
  with \<open>fst x = fst y\<close> have "x = y" by (simp add: prod_eq_iff)
  moreover from Cons.prems ys \<open>x = y\<close> have "xs = ys'"
    by (auto split: option.splits intro: Cons.IH)
  ultimately show ?case using ys by simp
qed

lemma klass_seg_head_notin:
  assumes seg: "klass_seg hp (next n) rs None" and n: "hp a = Some n"
  shows "a \<notin> fst ` set rs"
proof
  assume "a \<in> fst ` set rs"
  then obtain r where "r \<in> set rs" "fst r = a" by auto
  then obtain xs ys where rs: "rs = xs @ r # ys" by (meson split_list)
  with seg obtain m where "klass_seg hp m (r # ys) None"
    by (auto simp: klass_seg_append)
  with n \<open>fst r = a\<close> have "klass_seg hp (next n) ys None" by auto
  with seg have "rs = ys" by (rule klass_seg_unique)
  with rs show False by simp
qed

lemma klass_seg_distinct:
  "klass_seg hp p rs None \<Longrightarrow> distinct (map fst rs)"
proof (induction rs arbitrary: p)
  case Nil
  show ?case by simp
next
  case (Cons r rs)
  then obtain n where n: "hp (fst r) = Some n" and tl: "klass_seg hp (next n) rs None"
    by (auto split: option.splits)
  from tl n have "fst r \<notin> fst ` set rs" by (rule klass_seg_head_notin)
  with Cons.IH [OF tl] show ?case by simp
qed

lemma klass_seg_cong:
  "\<forall>b \<in> fst ` set rs. hp' b = hp b \<Longrightarrow> klass_seg hp' p rs q = klass_seg hp p rs q"
  by (induction rs arbitrary: p) (auto split: option.splits)

lemma slot_after_snoc: "slot_after (ps @ [r]) = Next_of (fst r)"
  by (simp add: slot_after_def)

lemma read_slot_end:
  "klass_seg (node_heap s) (klass_list s) ps q \<Longrightarrow> read_slot s (slot_after ps) = Inr q"
  by (cases ps rule: rev_cases)
     (auto simp: slot_after_def read_slot_def klass_seg_append split: option.splits)

lemma write_slot_end:
  assumes seg: "klass_seg (node_heap s) (klass_list s) ps q"
      and dist: "distinct (map fst ps)"
  shows "\<exists>s1. write_slot s (slot_after ps) v = Inr s1 \<and>
           klass_seg (node_heap s1) (klass_list s1) ps v \<and>
           (\<forall>b. b \<notin> fst ` set ps \<longrightarrow> node_heap s1 b = node_heap s b) \<and>
           dom (node_heap s1) = dom (node_heap s) \<and> same_globals s s1"
proof (cases ps rule: rev_cases)
  case Nil
  then show ?thesis
    by (simp add: slot_after_def write_slot_def same_globals_def)
next
  case (snoc ps' r)
  with seg obtain n where seg': "klass_seg (node_heap s) (klass_list s) ps' (Some (fst r))"
    and n: "node_heap s (fst r) = Some n" "klass_tag n = tag_of r" "signature n = signature_of r"
    by (auto simp: klass_seg_append split: option.splits)
  let ?hp = "(node_heap s)(fst r \<mapsto> n\<lparr>next := v\<rparr>)"
  let ?s1 = "s\<lparr>node_heap := ?hp\<rparr>"
  from dist snoc have notin: "fst r \<notin> fst ` set ps'" by auto
  have w: "write_slot s (slot_after ps) v = Inr ?s1"
    using snoc n by (simp add: slot_after_snoc write_slot_def)
  have "klass_seg ?hp (klass_list s) ps' (Some (fst r))"
    using seg' notin by (simp add: klass_seg_frame)
  then have "klass_seg (node_heap ?s1) (klass_list ?s1) ps v"
    using snoc n by (auto simp: klass_seg_append)
  moreover have "\<forall>b. b \<notin> fst ` set ps \<longrightarrow> node_heap ?s1 b = node_heap s b"
    using snoc by auto
  moreover have "dom (node_heap ?s1) = dom (node_heap s)"
    using n by auto
  moreover have "same_globals s ?s1"
    by (simp add: same_globals_def)
  ultimately show ?thesis using w by blast
qed

lemma isClassUnloaded_globals:
  "trackingEnv s' = trackingEnv s \<Longrightarrow> isClassUnloaded h s' t = isClassUnloaded h s t"
  by (simp add: isClassUnloaded_def)

lemma reported_globals:
  assumes "trackingEnv s' = trackingEnv s"
  shows "reported_unloaded h s' = reported_unloaded h s"
    and "reported_live h s' = reported_live h s"
    and "answers_ok h s' = answers_ok h s"
proof -
  show u: "reported_unloaded h s' = reported_unloaded h s"
    by (rule ext) (simp add: reported_unloaded_def isClassUnloaded_globals [OF assms])
  show l: "reported_live h s' = reported_live h s"
    by (rule ext) (simp add: reported_live_def isClassUnloaded_globals [OF assms])
  show "answers_ok h s' = answers_ok h s"
    by (rule ext) (simp add: answers_ok_def u l)
qed

lemma processUnloads_loop_correct:
  assumes "klass_seg (node_heap s) (klass_list s) ps node"
      and "klass_seg (node_heap s) node rs None"
      and "klass_seg (node_heap s) toDel ds None"
      and "distinct (map fst (ps @ rs @ ds))"
  shows "\<exists>res. processUnloads_loop h s toDel node (slot_after ps) = Some res \<and>
           loop_post h s ps rs ds res"
  using assms
proof (induction rs arbitrary: s ps node toDel ds)
  case Nil
  then have "node = None" by simp
  then have "processUnloads_loop h s toDel node (slot_after ps) = Some (Inr (s, toDel))"
    by (subst processUnloads_loop.simps) simp
  moreover have "loop_post h s ps [] ds (Inr (s, toDel))"
    using Nil \<open>node = None\<close> by (simp add: loop_post_def answers_ok_def same_globals_def)
  ultimately show ?case by blast
next
  case (Cons r rs)
  let ?a = "fst r"
  from Cons.prems(2) obtain n where node: "node = Some ?a"
    and n: "node_heap s ?a = Some n" "klass_tag n = tag_of r" "signature n = signature_of r"
    and tl: "klass_seg (node_heap s) (next n) rs None"
    by (auto split: option.splits)
  from Cons.prems(4) have a_ps: "?a \<notin> fst ` set ps" and a_rs: "?a \<notin> fst ` set rs"
    and a_ds: "?a \<notin> fst ` set ds" and d_ps: "distinct (map fst ps)" by auto
  have unfold: "processUnloads_loop h s toDel node (slot_after ps) =
      (case isClassUnloaded h s (tag_of r) of
         Inl f \<Rightarrow> Some (Inl f)
       | Inr unloaded \<Rightarrow>
           if unloaded then
             (case write_slot s (slot_after ps) (next n) of
                Inl f \<Rightarrow> Some (Inl f)
              | Inr s1 \<Rightarrow>
                  (case write_slot s1 (Next_of ?a) toDel of
                     Inl f \<Rightarrow> Some (Inl f)
                   | Inr s2 \<Rightarrow>
                       (case read_slot s2 (slot_after ps) of
                          Inl f \<Rightarrow> Some (Inl f)
                        | Inr node' \<Rightarrow>
                            processUnloads_loop h s2 (Some ?a) node' (slot_after ps))))
           else
             (case read_slot s (Next_of ?a) of
                Inl f \<Rightarrow> Some (Inl f)
              | Inr node' \<Rightarrow> processUnloads_loop h s toDel node' (Next_of ?a)))"
    by (subst processUnloads_loop.simps) (simp add: node n)
  show ?case
  proof (cases "isClassUnloaded h s (tag_of r)")
    case (Inl f)
    then show ?thesis using unfold by (simp add: loop_post_def)
  next
    case (Inr unloaded)
    show ?thesis
    proof (cases unloaded)
      case False
      with Inr have live: "reported_live h s r" "\<not> reported_unloaded h s r"
        by (simp_all add: reported_live_def reported_unloaded_def)
      have seg: "klass_seg (node_heap s) (klass_list s) (ps @ [r]) (next n)"
        using Cons.prems(1) node n by (simp add: klass_seg_append)
      have dist: "distinct (map fst ((ps @ [r]) @ rs @ ds))"
        using Cons.prems(4) by auto
      from Cons.IH [OF seg tl Cons.prems(3) dist]
      obtain res where res: "processUnloads_loop h s toDel (next n) (Next_of ?a) = Some res"
        and post: "loop_post h s (ps @ [r]) rs ds res"
        by (auto simp: slot_after_snoc)
      have "processUnloads_loop h s toDel node (slot_after ps) = Some res"
        using unfold Inr False res n by (simp add: read_slot_def)
      moreover have "loop_post h s ps (r # rs) ds res"
        using post live by (auto simp: loop_post_def answers_ok_def split: sum.splits)
      ultimately show ?thesis by blast
    next
      case True
      with Inr have dead: "reported_unloaded h s r" "\<not> reported_live h s r"
        by (simp_all add: reported_live_def reported_unloaded_def)
      from write_slot_end [OF Cons.prems(1) d_ps, of "next n"]
      obtain s1 where w1: "write_slot s (slot_after ps) (next n) = Inr s1"
        and seg1: "klass_seg (node_heap s1) (klass_list s1) ps (next n)"
        and frame1: "\<forall>b. b \<notin> fst ` set ps \<longrightarrow> node_heap s1 b = node_heap s b"
        and dom1: "dom (node_heap s1) = dom (node_heap s)"
        and glob1: "same_globals s s1"
        by blast
      have n1: "node_heap s1 ?a = Some n" using frame1 a_ps n by simp
      let ?s2 = "s1\<lparr>node_heap := (node_heap s1)(?a \<mapsto> n\<lparr>next := toDel\<rparr>)\<rparr>"
      have w2: "write_slot s1 (Next_of ?a) toDel = Inr ?s2"
        using n1 by (simp add: write_slot_def)
      have frame2: "\<forall>b. b \<notin> fst ` set (ps @ [r]) \<longrightarrow> node_heap ?s2 b = node_heap s b"
        using frame1 by simp
      have seg2: "klass_seg (node_heap ?s2) (klass_list ?s2) ps (next n)"
        using seg1 a_ps by (simp add: klass_seg_frame)
      then have r2: "read_slot ?s2 (slot_after ps) = Inr (next n)"
        by (rule read_slot_end)
      have agree: "node_heap ?s2 b = node_heap s b" if "b \<noteq> ?a" "b \<notin> fst ` set ps" for b
        using frame1 that by simp
      have disj: "fst ` set rs \<inter> fst ` set ps = {}" "fst ` set ds \<inter> fst ` set ps = {}"
        using Cons.prems(4) by auto
      have "\<forall>b \<in> fst ` set rs. node_heap ?s2 b = node_heap s b"
      proof
        fix b assume "b \<in> fst ` set rs"
        with a_rs disj(1) have "b \<noteq> ?a" "b \<notin> fst ` set ps" by blast+
        then show "node_heap ?s2 b = node_heap s b" by (rule agree)
      qed
      then have "klass_seg (node_heap ?s2) (next n) rs None = klass_seg (node_heap s) (next n) rs None"
        by (rule klass_seg_cong)
      with tl have tl2: "klass_seg (node_heap ?s2) (next n) rs None" by simp
      have "\<forall>b \<in> fst ` set ds. node_heap ?s2 b = node_heap s b"
      proof
        fix b assume "b \<in> fst ` set ds"
        with a_ds disj(2) have "b \<noteq> ?a" "b \<notin> fst ` set ps" by blast+
        then show "node_heap ?s2 b = node_heap s b" by (rule agree)
      qed
      then have "klass_seg (node_heap ?s2) toDel ds None = klass_seg (node_heap s) toDel ds None"
        by (rule klass_seg_cong)
      with Cons.prems(3) have "klass_seg (node_heap ?s2) toDel ds None" by simp
      then have del2: "klass_seg (node_heap ?s2) (Some ?a) (r # ds) None"
        using n by simp
      have dist: "distinct (map fst (ps @ rs @ r # ds))"
        using Cons.prems(4) by auto
      from Cons.IH [OF seg2 tl2 del2 dist]
      obtain res where res: "processUnloads_loop h ?s2 (Some ?a) (next n) (slot_after ps) = Some res"
        and post: "loop_post h ?s2 ps rs (r # ds) res"
        by blast
      have env2: "trackingEnv ?s2 = trackingEnv s"
        using glob1 by (simp add: same_globals_def)
      have "processUnloads_loop h s toDel node (slot_after ps) = Some res"
        using unfold Inr True w1 w2 r2 res by simp
      moreover have "loop_post h s ps (r # rs) ds res"
      proof (cases res)
        case (Inl f)
        with post show ?thesis
          by (auto simp: loop_post_def isClassUnloaded_globals [OF env2])
      next
        case (Inr p)
        obtain s' toDel' where p: "p = (s', toDel')" by (cases p)
        from post Inr p have ok: "answers_ok h s rs"
          and live': "klass_seg (node_heap s') (klass_list s') (ps @ filter (reported_live h s) rs) None"
          and dead': "klass_seg (node_heap s') toDel' (rev (filter (reported_unloaded h s) rs) @ r # ds) None"
          and frame': "\<forall>b. b \<notin> fst ` set (ps @ rs @ r # ds) \<longrightarrow> node_heap s' b = node_heap ?s2 b"
          and dom': "dom (node_heap s') = dom (node_heap ?s2)"
          and glob': "same_globals ?s2 s'"
          by (simp_all add: loop_post_def reported_globals [OF env2])
        have "answers_ok h s (r # rs)"
          using ok dead by (simp add: answers_ok_def)
        moreover have "\<forall>b. b \<notin> fst ` set (ps @ (r # rs) @ ds) \<longrightarrow> node_heap s' b = node_heap s b"
          using frame' frame2 by auto
        moreover have "dom (node_heap s') = dom (node_heap s)"
          using dom' dom1 n1 by auto
        moreover have "same_globals s s'"
          using glob' glob1 by (simp add: same_globals_def)
        ultimately show ?thesis
          using Inr p live' dead' dead by (simp add: loop_post_def)
      qed
      ultimately show ?thesis by blast
    qed
  qed
qed

lemma bag_grows_always: "\<forall>b. bagAdd_ok h b \<Longrightarrow> bag_grows h b xs"
  by (induction xs arbitrary: b) auto

lemma release_Nil: "release [] s = s"
  by (simp add: release_def)

lemma dom_release: "dom (node_heap (release ds s)) = dom (node_heap s) - fst ` set ds"
  by (auto simp: release_def dom_def)

lemma deleteList_loop_correct:
  assumes "klass_seg (node_heap s) node ds None"
  shows "deleteList_loop h s sigs node =
           Some (if bag_grows h sigs (map signature_of ds)
                 then Inr (release ds s, sigs @ map signature_of ds)
                 else Inl (EXIT_ERROR AGENT_ERROR_OUT_OF_MEMORY ''signature bag''))"
  using assms
proof (induction ds arbitrary: s sigs node)
  case Nil
  then show ?case
    by (subst deleteList_loop.simps) (simp add: release_Nil)
next
  case (Cons r ds)
  let ?a = "fst r"
  from Cons.prems obtain n where node: "node = Some ?a"
    and n: "node_heap s ?a = Some n" "signature n = signature_of r"
    and tl: "klass_seg (node_heap s) (next n) ds None"
    by (auto split: option.splits)
  from tl n(1) have notin: "?a \<notin> fst ` set ds" by (rule klass_seg_head_notin)
  let ?s1 = "s\<lparr>node_heap := (node_heap s)(?a := None)\<rparr>"
  have tl1: "klass_seg (node_heap ?s1) (next n) ds None"
    using tl notin by (simp add: klass_seg_frame)
  have rel: "release ds ?s1 = release (r # ds) s"
    by (auto simp: release_def fun_eq_iff)
  have unfold: "deleteList_loop h s sigs node =
      (if bagAdd_ok h sigs
       then deleteList_loop h ?s1 (sigs @ [signature_of r]) (next n)
       else Some (Inl (EXIT_ERROR AGENT_ERROR_OUT_OF_MEMORY ''signature bag'')))"
    by (subst deleteList_loop.simps) (simp add: node n bagAdd_def)
  show ?case
    unfolding unfold using Cons.IH [OF tl1, of "sigs @ [signature_of r]"] rel by simp
qed

lemma reported_exclusive: "reported_live h s r \<Longrightarrow> \<not> reported_unloaded h s r"
  by (simp add: reported_live_def reported_unloaded_def)

lemma answers_ok_no_fatal:
  "answers_ok h s rs \<Longrightarrow> r \<in> set rs \<Longrightarrow> isClassUnloaded h s (tag_of r) \<noteq> Inl f"
  by (auto simp: answers_ok_def reported_live_def reported_unloaded_def)

lemma filter_addresses_disjoint:
  assumes "distinct (map fst rs)" and "\<And>r. P r \<Longrightarrow> \<not> Q r"
  shows "fst ` set (filter P rs) \<inter> fst ` set (filter Q rs) = {}"
proof -
  from assms(1) have inj: "inj_on fst (set rs)" by (simp add: distinct_map)
  show ?thesis
  proof (rule ccontr)
    assume "fst ` set (filter P rs) \<inter> fst ` set (filter Q rs) \<noteq> {}"
    then obtain x y where x: "x \<in> set rs" "P x" and y: "y \<in> set rs" "Q y" and "fst x = fst y"
      by auto
    with inj have "x = y" by (auto dest: inj_onD)
    with x y assms(2) show False by blast
  qed
qed

lemma classTrack_processUnloads_correct:
  assumes reg: "registry s rs"
  shows "\<exists>res. classTrack_processUnloads h s = Some res \<and> pass_post h s rs res"
proof -
  let ?dead = "unloaded_records h s rs" and ?live = "live_records h s rs"
  from reg have seg: "klass_seg (node_heap s) (klass_list s) rs None"
    by (simp add: registry_def)
  then have dist: "distinct (map fst rs)" by (rule klass_seg_distinct)
  have "\<exists>res. processUnloads_loop h s None (klass_list s) (slot_after []) = Some res \<and>
          loop_post h s [] rs [] res"
    using seg dist by (intro processUnloads_loop_correct) simp_all
  then obtain res1 where loop: "processUnloads_loop h s None (klass_list s) List_var = Some res1"
    and post1: "loop_post h s [] rs [] res1"
    by (auto simp: slot_after_def)
  show ?thesis
  proof (cases res1)
    case (Inl f)
    with loop have "classTrack_processUnloads h s = Some (Inl f)"
      by (simp add: classTrack_processUnloads_def)
    moreover from post1 Inl have "pass_post h s rs (Inl f)"
      by (simp add: loop_post_def pass_post_def)
    ultimately show ?thesis by blast
  next
    case (Inr p)
    obtain s1 toDel where p: "p = (s1, toDel)" by (cases p)
    from post1 Inr p have ok: "answers_ok h s rs"
      and live1: "klass_seg (node_heap s1) (klass_list s1) ?live None"
      and dead1: "klass_seg (node_heap s1) toDel (rev ?dead) None"
      and frame1: "\<forall>b. b \<notin> fst ` set rs \<longrightarrow> node_heap s1 b = node_heap s b"
      and dom1: "dom (node_heap s1) = dom (node_heap s)"
      and glob1: "same_globals s s1"
      by (simp_all add: loop_post_def live_records_def unloaded_records_def)
    let ?sigs = "map signature_of (rev ?dead)"
    let ?s' = "release (rev ?dead) s1"
    have call: "classTrack_processUnloads h s = deleteList h s1 toDel"
      using loop Inr p by (simp add: classTrack_processUnloads_def)
    have del: "deleteList_loop h s1 [] toDel =
        Some (if bag_grows h [] ?sigs then Inr (?s', ?sigs)
              else Inl (EXIT_ERROR AGENT_ERROR_OUT_OF_MEMORY ''signature bag''))"
      using deleteList_loop_correct [OF dead1, of h "[]"] by simp
    have disj: "fst ` set ?live \<inter> fst ` set ?dead = {}"
      unfolding live_records_def unloaded_records_def
      using dist by (rule filter_addresses_disjoint) (rule reported_exclusive)
    have "\<forall>b \<in> fst ` set ?live. node_heap ?s' b = node_heap s1 b"
      using disj by (auto simp: release_def)
    then have "klass_seg (node_heap ?s') (klass_list s1) ?live None =
        klass_seg (node_heap s1) (klass_list s1) ?live None"
      by (rule klass_seg_cong)
    with live1 have reg': "registry ?s' ?live"
      by (simp add: registry_def release_def)
    have sub: "fst ` set ?dead \<subseteq> fst ` set rs"
      by (auto simp: unloaded_records_def)
    have dom': "dom (node_heap ?s') = dom (node_heap s) - fst ` set ?dead"
      by (simp add: dom_release dom1)
    have frame': "\<forall>b. b \<notin> fst ` set rs \<longrightarrow> node_heap ?s' b = node_heap s b"
      using frame1 sub by (auto simp: release_def)
    have glob': "same_globals s ?s'"
      using glob1 by (simp add: same_globals_def release_def)
    show ?thesis
    proof (cases "bagCreateBag_ok h")
      case False
      then have "classTrack_processUnloads h s =
          Some (Inl (EXIT_ERROR AGENT_ERROR_OUT_OF_MEMORY ''signatures''))"
        using call by (simp add: deleteList_def bagCreateBag_def)
      moreover have "pass_post h s rs (Inl (EXIT_ERROR AGENT_ERROR_OUT_OF_MEMORY ''signatures''))"
        using ok False by (simp add: pass_post_def)
      ultimately show ?thesis by blast
    next
      case True
      then have call': "classTrack_processUnloads h s = deleteList_loop h s1 [] toDel"
        using call by (simp add: deleteList_def bagCreateBag_def)
      show ?thesis
      proof (cases "bag_grows h [] ?sigs")
        case False
        with call' del have "classTrack_processUnloads h s =
            Some (Inl (EXIT_ERROR AGENT_ERROR_OUT_OF_MEMORY ''signature bag''))"
          by simp
        moreover have "pass_post h s rs (Inl (EXIT_ERROR AGENT_ERROR_OUT_OF_MEMORY ''signature bag''))"
          using ok True False by (simp add: pass_post_def)
        ultimately show ?thesis by blast
      next
        case grows: True
        with call' del have "classTrack_processUnloads h s = Some (Inr (?s', ?sigs))"
          by simp
        moreover have "pass_post h s rs (Inr (?s', ?sigs))"
          using ok True grows reg' dom' frame' glob' by (simp add: pass_post_def)
        ultimately show ?thesis by blast
      qed
    qed
  qed
qed

lemma isClassUnloaded_answer:
  assumes "trackingEnv s = Some env" and "GetObjectsWithTags h env t = (JVMTI_ERROR_NONE, c)"
  shows "isClassUnloaded h s t =
           (if c = 0 then Inr True else if c = 1 then Inr False
            else Inl (EXIT_ERROR AGENT_ERROR_INTERNAL ''Unexpected extra tags in trackingEnv!''))"
  using assms by (simp add: isClassUnloaded_def)

lemma reported_unloaded_iff:
  "trackingEnv s = Some env \<Longrightarrow>
     reported_unloaded h s r \<longleftrightarrow> GetObjectsWithTags h env (tag_of r) = (JVMTI_ERROR_NONE, 0)"
  by (cases "GetObjectsWithTags h env (tag_of r)")
     (auto simp: reported_unloaded_def isClassUnloaded_def)

lemma reported_live_iff:
  "trackingEnv s = Some env \<Longrightarrow>
     reported_live h s r \<longleftrightarrow> GetObjectsWithTags h env (tag_of r) = (JVMTI_ERROR_NONE, 1)"
  by (cases "GetObjectsWithTags h env (tag_of r)")
     (auto simp: reported_live_def isClassUnloaded_def)

lemma processUnloads_loop_all_live:
  assumes "klass_seg (node_heap s) node rs None" and "\<forall>r \<in> set rs. reported_live h s r"
  shows "processUnloads_loop h s toDel node prev = Some (Inr (s, toDel))"
  using assms
proof (induction rs arbitrary: node prev)
  case Nil
  then show ?case by (subst processUnloads_loop.simps) simp
next
  case (Cons r rs)
  then obtain n where node: "node = Some (fst r)"
    and n: "node_heap s (fst r) = Some n" "klass_tag n = tag_of r"
    and tl: "klass_seg (node_heap s) (next n) rs None"
    by (auto split: option.splits)
  from Cons.prems(2) have live: "isClassUnloaded h s (tag_of r) = Inr False"
    by (simp add: reported_live_def)
  have "processUnloads_loop h s toDel node prev =
      processUnloads_loop h s toDel (next n) (Next_of (fst r))"
    by (subst processUnloads_loop.simps) (simp add: node n live read_slot_def)
  also have "\<dots> = Some (Inr (s, toDel))"
    using tl Cons.prems(2) by (intro Cons.IH) simp_all
  finally show ?case .
qed

lemma deleteList_NULL:
  "deleteList h s None =
     (if bagCreateBag_ok h then Some (Inr (s, []))
      else Some (Inl (EXIT_ERROR AGENT_ERROR_OUT_OF_MEMORY ''signatures'')))"
  by (simp add: deleteList_def bagCreateBag_def deleteList_loop.simps)

lemma processUnloads_all_live:
  assumes "registry s rs" and "\<forall>r \<in> set rs. reported_live h s r" and "bagCreateBag_ok h"
  shows "classTrack_processUnloads h s = Some (Inr (s, []))"
proof -
  from assms(1) have "klass_seg (node_heap s) (klass_list s) rs None"
    by (simp add: registry_def)
  then have "processUnloads_loop h s None (klass_list s) List_var = Some (Inr (s, None))"
    using assms(2) by (rule processUnloads_loop_all_live)
  then show ?thesis
    using assms(3) by (simp add: classTrack_processUnloads_def deleteList_NULL)
qed

lemma klass_seg_allocated:
  "klass_seg hp p rs q \<Longrightarrow> fst ` set rs \<subseteq> dom hp"
  by (induction rs arbitrary: p) (auto split: option.splits)

lemma processUnloads_partition_raw:
  assumes "registry s rs"
      and "trackingEnv s = Some env"
      and "\<forall>r \<in> set rs. GetObjectsWithTags h env (tag_of r) = (JVMTI_ERROR_NONE, 0) \<or>
                         GetObjectsWithTags h env (tag_of r) = (JVMTI_ERROR_NONE, 1)"
      and "bagCreateBag_ok h" and "\<forall>b. bagAdd_ok h b"
  shows "\<exists>s' signatures.
           classTrack_processUnloads h s = Some (Inr (s', signatures)) \<and>
           mset signatures =
             mset (map signature_of
               (filter (\<lambda>r. GetObjectsWithTags h env (tag_of r) = (JVMTI_ERROR_NONE, 0)) rs)) \<and>
           registry s'
             (filter (\<lambda>r. GetObjectsWithTags h env (tag_of r) = (JVMTI_ERROR_NONE, 1)) rs)"
proof -
  from classTrack_processUnloads_correct [OF assms(1)]
  obtain res where res: "classTrack_processUnloads h s = Some res" and post: "pass_post h s rs res"
    by blast
  have ok: "answers_ok h s rs"
    using assms(3) by (simp add: answers_ok_def reported_unloaded_iff [OF assms(2)]
        reported_live_iff [OF assms(2)])
  have dead: "unloaded_records h s rs =
      filter (\<lambda>r. GetObjectsWithTags h env (tag_of r) = (JVMTI_ERROR_NONE, 0)) rs"
    unfolding unloaded_records_def by (rule filter_cong) (simp_all add: reported_unloaded_iff [OF assms(2)])
  have live: "live_records h s rs =
      filter (\<lambda>r. GetObjectsWithTags h env (tag_of r) = (JVMTI_ERROR_NONE, 1)) rs"
    unfolding live_records_def by (rule filter_cong) (simp_all add: reported_live_iff [OF assms(2)])
  show ?thesis
  proof (cases res)
    case (Inl f)
    with post ok assms(4,5) show ?thesis
      by (auto simp: pass_post_def bag_grows_always dest: answers_ok_no_fatal)
  next
    case (Inr p)
    obtain s' signatures where p: "p = (s', signatures)" by (cases p)
    from post Inr p have "signatures = map signature_of (rev (unloaded_records h s rs))"
      and "registry s' (live_records h s rs)"
      by (simp_all add: pass_post_def)
    then show ?thesis
      using res Inr p dead live by (simp add: rev_map [symmetric])
  qed
qed

lemma processUnloads_partition:
  assumes "registry s rs"
      and "trackingEnv s = Some env"
      and "\<forall>r \<in> set rs. oracle_unloaded h env r \<or> oracle_live h env r"
      and "bagCreateBag_ok h" and "\<forall>b. bagAdd_ok h b"
  shows "\<exists>s' signatures.
           classTrack_processUnloads h s = Some (Inr (s', signatures)) \<and>
           mset signatures = mset (map signature_of (filter (oracle_unloaded h env) rs)) \<and>
           registry s' (filter (oracle_live h env) rs)"
  using processUnloads_partition_raw [OF assms(1,2) _ assms(4,5)] assms(3)
  unfolding oracle_unloaded_def oracle_live_def by simp

section \<open>Insertions and initialization\<close>

lemma addPreparedClass_Inr:
  assumes "classTrack_addPreparedClass h s klass = Inr s'"
  shows "\<exists>env a sg env'.
           trackingEnv s = Some env \<and>
           jvmtiAllocate h (node_heap s) = Some a \<and>
           classSignature h klass = (JVMTI_ERROR_NONE, sg) \<and>
           SetTag h env klass (currentKlassTag s + 1) = (JVMTI_ERROR_NONE, env') \<and>
           node_heap s' = (node_heap s)(a \<mapsto> new_node s sg) \<and>
           klass_list s' = Some a \<and>
           trackingEnv s' = Some env' \<and>
           currentKlassTag s' = currentKlassTag s + 1"
  using assms
  by (auto simp: classTrack_addPreparedClass_def JDI_ASSERT_FAILED_def Let_def new_node_def
      split: if_splits option.splits prod.splits sum.splits)

lemma addPreparedClass_unchecked:
  assumes "\<not> assertOn h"
      and "trackingEnv s = Some env"
      and "jvmtiAllocate h (node_heap s) = Some a"
      and "classSignature h klass = (JVMTI_ERROR_NONE, sg)"
      and "SetTag h env klass (currentKlassTag s + 1) = (JVMTI_ERROR_NONE, env')"
  shows "classTrack_addPreparedClass h s klass =
           Inr (s\<lparr>currentKlassTag := currentKlassTag s + 1, trackingEnv := Some env',
                  node_heap := (node_heap s)(a \<mapsto> new_node s sg), klass_list := Some a\<rparr>)"
  using assms by (simp add: classTrack_addPreparedClass_def Let_def new_node_def)

lemma addPreparedClass_registry:
  assumes reg: "registry s rs"
      and s': "node_heap s' = (node_heap s)(a \<mapsto> new_node s sg)" "klass_list s' = Some a"
      and fresh: "node_heap s a = None"
  shows "registry s' ((a, currentKlassTag s + 1, sg) # rs)"
proof -
  from reg have seg: "klass_seg (node_heap s) (klass_list s) rs None"
    by (simp add: registry_def)
  then have "fst ` set rs \<subseteq> dom (node_heap s)" by (rule klass_seg_allocated)
  with fresh have "a \<notin> fst ` set rs" by auto
  with seg have "klass_seg ((node_heap s)(a \<mapsto> new_node s sg)) (klass_list s) rs None"
    by (simp add: klass_seg_frame)
  then show ?thesis
    by (simp add: registry_def s' new_node_def tag_of_def signature_of_def)
qed

lemma addPreparedClass_checked:
  assumes "assertOn h" and "trackingEnv s = Some env"
      and "GetTag h env klass = (JVMTI_ERROR_NONE, tag)"
  shows "classTrack_addPreparedClass h s klass =
           (if tag = 0 then classTrack_addPreparedClass (h\<lparr>assertOn := False\<rparr>) s klass
            else
              (case JDI_ASSERT_FAILED h ''Attempting to insert duplicate class'' s of
                 Inl f \<Rightarrow> Inl f
               | Inr s1 \<Rightarrow> classTrack_addPreparedClass (h\<lparr>assertOn := False\<rparr>) s1 klass))"
  using assms
  by (simp add: classTrack_addPreparedClass_def Let_def
      cong: option.case_cong prod.case_cong if_cong sum.case_cong)

lemma addPreparedClass_unchecked_log:
  assumes "\<not> assertOn h" and "classTrack_addPreparedClass h s klass = Inr s'"
  shows "assertions_failed s' = assertions_failed s"
  using assms
  by (auto simp: classTrack_addPreparedClass_def Let_def
      split: if_splits option.splits prod.splits sum.splits)

lemmas demo_defs =
  demo_tracker_def demo_records_def demo_host_def demo_env_def demo_signature_def
  tag_of_def signature_of_def

lemma demo_registry: "registry demo_tracker demo_records"
  by (simp add: registry_def demo_defs)

lemma demo_trackingEnv: "trackingEnv demo_tracker = Some demo_env"
  by (simp add: demo_tracker_def)

lemma addPreparedClass_pushes:
  assumes reg: "registry s rs"
      and env: "trackingEnv s = Some env"
      and untagged: "assertOn h \<longrightarrow> GetTag h env klass = (JVMTI_ERROR_NONE, 0)"
      and alloc: "jvmtiAllocate h (node_heap s) = Some a"
      and fresh: "node_heap s a = None"
      and sg: "classSignature h klass = (JVMTI_ERROR_NONE, sg)"
      and tagged: "SetTag h env klass (currentKlassTag s + 1) = (JVMTI_ERROR_NONE, env')"
  shows "\<exists>s'. classTrack_addPreparedClass h s klass = Inr s' \<and>
           registry s' ((a, currentKlassTag s + 1, sg) # rs) \<and>
           node_heap s' = (node_heap s)(a \<mapsto> new_node s sg) \<and>
           currentKlassTag s' = currentKlassTag s + 1 \<and>
           trackingEnv s' = Some env' \<and>
           assertions_failed s' = assertions_failed s"
proof -
  let ?h = "h\<lparr>assertOn := False\<rparr>"
  let ?s' = "s\<lparr>currentKlassTag := currentKlassTag s + 1, trackingEnv := Some env',
               node_heap := (node_heap s)(a \<mapsto> new_node s sg), klass_list := Some a\<rparr>"
  have plain: "classTrack_addPreparedClass ?h s klass = Inr ?s'"
    using env alloc sg tagged by (intro addPreparedClass_unchecked) simp_all
  have "classTrack_addPreparedClass h s klass = classTrack_addPreparedClass ?h s klass"
  proof (cases "assertOn h")
    case True
    with untagged env show ?thesis by (simp add: addPreparedClass_checked)
  next
    case False
    then have "?h = h" by simp
    then show ?thesis by simp
  qed
  with plain have run: "classTrack_addPreparedClass h s klass = Inr ?s'" by simp
  have "registry ?s' ((a, currentKlassTag s + 1, sg) # rs)"
    using reg _ _ fresh by (rule addPreparedClass_registry) simp_all
  with run show ?thesis by simp
qed

lemma addPreparedClass_fails:
  assumes "\<not> assertOn h" and "trackingEnv s = Some env"
  shows "jvmtiAllocate h (node_heap s) = None \<Longrightarrow>
           classTrack_addPreparedClass h s klass =
             Inl (EXIT_ERROR AGENT_ERROR_OUT_OF_MEMORY ''KlassNode'')"
    and "jvmtiAllocate h (node_heap s) = Some a \<Longrightarrow> classSignature h klass = (e, sg) \<Longrightarrow>
           e \<noteq> JVMTI_ERROR_NONE \<Longrightarrow>
           classTrack_addPreparedClass h s klass = Inl (EXIT_ERROR e ''signature'')"
    and "jvmtiAllocate h (node_heap s) = Some a \<Longrightarrow>
           classSignature h klass = (JVMTI_ERROR_NONE, sg) \<Longrightarrow>
           SetTag h env klass (currentKlassTag s + 1) = (e, env') \<Longrightarrow> e \<noteq> JVMTI_ERROR_NONE \<Longrightarrow>
           classTrack_addPreparedClass h s klass = Inl (EXIT_ERROR e ''SetTag'')"
  using assms by (simp_all add: classTrack_addPreparedClass_def Let_def)

lemma registry_assertions_failed:
  "registry (s\<lparr>assertions_failed := l\<rparr>) rs = registry s rs"
  by (simp add: registry_def)




lemma wanted_test:
  "((status AND (JVMTI_CLASS_STATUS_PREPARED OR JVMTI_CLASS_STATUS_ARRAY)) \<noteq> 0) =
     (has_flag status JVMTI_CLASS_STATUS_PREPARED \<or> has_flag status JVMTI_CLASS_STATUS_ARRAY)"
  by (auto simp: has_flag_def bit.conj_disj_distrib or_eq_0_iff)

lemma initialize_loop_add_all:
  "initialize_loop h classes s = add_all h (filter (wanted_class h) classes) s"
  by (induction classes arbitrary: s)
     (simp_all add: Let_def wanted_test wanted_class_def split: sum.splits)

lemma add_all_registry:
  assumes "add_all h ks s = Inr s'" and "registry s rs" and "sound_allocator h"
      and "trackingEnv s = Some env"
  shows "\<exists>new. registry s' (new @ rs) \<and>
           map snd new = rev (numbered (currentKlassTag s) (map (\<lambda>k. snd (classSignature h k)) ks)) \<and>
           currentKlassTag s' = currentKlassTag s + of_nat (length ks) \<and>
           trackingEnv s' = Some (tagged_env h env (currentKlassTag s) ks)"
  using assms
proof (induction ks arbitrary: s rs env)
  case Nil
  then show ?case by simp
next
  case (Cons k ks)
  from Cons.prems(1) obtain s1 where add: "classTrack_addPreparedClass h s k = Inr s1"
    and rest: "add_all h ks s1 = Inr s'"
    by (auto split: sum.splits)
  from addPreparedClass_Inr [OF add] Cons.prems(4)
  obtain a sg env' where alloc: "jvmtiAllocate h (node_heap s) = Some a"
    and sg: "classSignature h k = (JVMTI_ERROR_NONE, sg)"
    and tagged: "SetTag h env k (currentKlassTag s + 1) = (JVMTI_ERROR_NONE, env')"
    and heap1: "node_heap s1 = (node_heap s)(a \<mapsto> new_node s sg)"
    and list1: "klass_list s1 = Some a"
    and env1: "trackingEnv s1 = Some env'"
    and tag1: "currentKlassTag s1 = currentKlassTag s + 1"
    by auto
  from alloc Cons.prems(3) have fresh: "node_heap s a = None"
    by (simp add: sound_allocator_def)
  let ?r = "(a, currentKlassTag s + 1, sg)"
  have reg1: "registry s1 (?r # rs)"
    using Cons.prems(2) heap1 list1 fresh by (rule addPreparedClass_registry)
  from Cons.IH [OF rest reg1 Cons.prems(3) env1]
  obtain new where new: "registry s' (new @ ?r # rs)"
    "map snd new = rev (numbered (currentKlassTag s1) (map (\<lambda>k. snd (classSignature h k)) ks))"
    "currentKlassTag s' = currentKlassTag s1 + of_nat (length ks)"
    "trackingEnv s' = Some (tagged_env h env' (currentKlassTag s1) ks)"
    by blast
  have "registry s' ((new @ [?r]) @ rs)" using new(1) by simp
  moreover have "map snd (new @ [?r]) =
      rev (numbered (currentKlassTag s) (map (\<lambda>k. snd (classSignature h k)) (k # ks)))"
    using new(2) by (simp add: tag1 sg)
  moreover have "currentKlassTag s' = currentKlassTag s + of_nat (length (k # ks))"
    using new(3) by (simp add: tag1)
  moreover have "trackingEnv s' = Some (tagged_env h env (currentKlassTag s) (k # ks))"
    using new(4) by (simp add: tag1 tagged)
  ultimately show ?case by blast
qed

lemma numbered_tags:
  "map fst (numbered c xs) = map (\<lambda>i. c + of_nat (Suc i)) [0..<length xs]"
proof (induction xs arbitrary: c)
  case Nil
  show ?case by simp
next
  case (Cons x xs)
  have "[0..<length (x # xs)] = 0 # map Suc [0..<length xs]"
    by (simp add: upt_conv_Cons map_Suc_upt del: upt_Suc)
  then show ?case by (simp add: Cons.IH comp_def add.assoc)
qed

lemma of_nat_jlong_inj:
  "i < 2 ^ 64 \<Longrightarrow> j < 2 ^ 64 \<Longrightarrow> (of_nat i :: jlong) = of_nat j \<Longrightarrow> i = j"
  by (simp add: word_of_nat_eq_iff take_bit_nat_eq_self)

lemma numbered_tags_distinct:
  assumes "length xs < 2 ^ 64"
  shows "distinct (map fst (numbered c xs))"
proof -
  have "inj_on (\<lambda>i. c + (of_nat (Suc i) :: jlong)) {0..<length xs}"
  proof (rule inj_onI)
    fix i j
    assume "i \<in> {0..<length xs}" "j \<in> {0..<length xs}"
      and "c + (of_nat (Suc i) :: jlong) = c + of_nat (Suc j)"
    with assms have "Suc i < 2 ^ 64" "Suc j < 2 ^ 64" "(of_nat (Suc i) :: jlong) = of_nat (Suc j)"
      by simp_all
    then have "Suc i = Suc j" by (rule of_nat_jlong_inj)
    then show "i = j" by simp
  qed
  then show ?thesis by (simp add: numbered_tags distinct_map)
qed

lemma demo_allocator_sound: "sound_allocator (demo_host live)"
  by (auto simp: sound_allocator_def demo_host_def find_Some_iff)


section \<open>Invariants of the life of the tracker\<close>























lemma addPreparedClass_tags_inv:
  assumes add: "classTrack_addPreparedClass h s klass = Inr s'"
      and sound: "sound_allocator h" and inv: "tags_inv n s"
  shows "tags_inv (Suc n) s'"
proof -
  from inv obtain rs where reg: "registry s rs"
    and tags: "\<forall>r \<in> set rs. \<exists>i. 0 < i \<and> i \<le> n \<and> tag_of r = of_nat i"
    and c: "currentKlassTag s = of_nat n"
    by (auto simp: tags_inv_def)
  from addPreparedClass_Inr [OF add]
  obtain a sg where alloc: "jvmtiAllocate h (node_heap s) = Some a"
    and heap': "node_heap s' = (node_heap s)(a \<mapsto> new_node s sg)"
    and list': "klass_list s' = Some a"
    and c': "currentKlassTag s' = currentKlassTag s + 1"
    by blast
  from alloc sound have fresh: "node_heap s a = None"
    by (simp add: sound_allocator_def)
  let ?r = "(a, currentKlassTag s + 1, sg)"
  have reg': "registry s' (?r # rs)"
    using reg heap' list' fresh by (rule addPreparedClass_registry)
  have "\<exists>i. 0 < i \<and> i \<le> Suc n \<and> tag_of r = of_nat i" if "r \<in> set (?r # rs)" for r
  proof (cases "r = ?r")
    case True
    then have "tag_of r = of_nat (Suc n)" by (simp add: tag_of_def c)
    then show ?thesis by blast
  next
    case False
    with that tags obtain i where "0 < i" "i \<le> n" "tag_of r = of_nat i" by auto
    then show ?thesis by (intro exI [of _ i]) simp
  qed
  moreover have "currentKlassTag s' = of_nat (Suc n)"
    using c c' by simp
  ultimately show ?thesis using reg' unfolding tags_inv_def by blast
qed

lemma processUnloads_tags_inv:
  assumes pass: "classTrack_processUnloads h s = Some (Inr (s', signatures))"
      and inv: "tags_inv n s"
  shows "tags_inv n s'"
proof -
  from inv obtain rs where reg: "registry s rs"
    and tags: "\<forall>r \<in> set rs. \<exists>i. 0 < i \<and> i \<le> n \<and> tag_of r = of_nat i"
    and c: "currentKlassTag s = of_nat n"
    by (auto simp: tags_inv_def)
  from classTrack_processUnloads_correct [OF reg, of h] pass
  have post: "pass_post h s rs (Inr (s', signatures))" by auto
  then have reg': "registry s' (live_records h s rs)" and glob: "same_globals s s'"
    by (simp_all add: pass_post_def)
  have "set (live_records h s rs) \<subseteq> set rs"
    by (auto simp: live_records_def)
  with tags have "\<forall>r \<in> set (live_records h s rs). \<exists>i. 0 < i \<and> i \<le> n \<and> tag_of r = of_nat i"
    by blast
  moreover have "currentKlassTag s' = of_nat n"
    using glob c by (simp add: same_globals_def)
  ultimately show ?thesis using reg' unfolding tags_inv_def by blast
qed

lemma add_all_tags_inv:
  "add_all h ks s = Inr s' \<Longrightarrow> sound_allocator h \<Longrightarrow> tags_inv n s \<Longrightarrow>
     tags_inv (n + length ks) s'"
proof (induction ks arbitrary: s n)
  case Nil
  then show ?case by simp
next
  case (Cons k ks)
  from Cons.prems(1) obtain s1 where add: "classTrack_addPreparedClass h s k = Inr s1"
    and rest: "add_all h ks s1 = Inr s'"
    by (auto split: sum.splits)
  from addPreparedClass_tags_inv [OF add Cons.prems(2,3)] have "tags_inv (Suc n) s1" .
  from Cons.IH [OF rest Cons.prems(2) this] show ?case by simp
qed

lemma run_calls_tags_inv:
  "run_calls calls s = Some (Inr s') \<Longrightarrow> \<forall>c \<in> set calls. sound_allocator (host_of c) \<Longrightarrow>
     tags_inv n s \<Longrightarrow> tags_inv (n + length (filter is_add calls)) s'"
proof (induction calls arbitrary: s n)
  case Nil
  then show ?case by simp
next
  case (Cons c calls)
  show ?case
  proof (cases c)
    case (AddPreparedClass h klass)
    with Cons.prems(1) obtain s1 where
      add: "classTrack_addPreparedClass h s klass = Inr s1" and
      rest: "run_calls calls s1 = Some (Inr s')"
      by (auto split: sum.splits)
    from Cons.prems(2) AddPreparedClass have "sound_allocator h" by simp
    from addPreparedClass_tags_inv [OF add this Cons.prems(3)] have "tags_inv (Suc n) s1" .
    from Cons.IH [OF rest _ this] Cons.prems(2) show ?thesis
      by (simp add: AddPreparedClass)
  next
    case (ProcessUnloads h)
    with Cons.prems(1) obtain s1 sigs where
      pass: "classTrack_processUnloads h s = Some (Inr (s1, sigs))" and
      rest: "run_calls calls s1 = Some (Inr s')"
      by (auto split: option.splits sum.splits)
    from processUnloads_tags_inv [OF pass Cons.prems(3)] have "tags_inv n s1" .
    from Cons.IH [OF rest _ this] Cons.prems(2) show ?thesis
      by (simp add: ProcessUnloads)
  qed
qed

lemma initialize_tags_inv:
  assumes init: "classTrack_initialize h s = Inr s'" and sound: "sound_allocator h"
  shows "tags_inv (length (filter (wanted_class h) (snd (allLoadedClasses h)))) s'"
proof -
  from init obtain env where
    loop: "initialize_loop h (snd (allLoadedClasses h))
        (s\<lparr>trackingEnv := Some env, currentKlassTag := 0, klass_list := None\<rparr>) = Inr s'"
    by (auto simp: classTrack_initialize_def Let_def split: option.splits prod.splits if_splits)
  have "tags_inv 0 (s\<lparr>trackingEnv := Some env, currentKlassTag := 0, klass_list := None\<rparr>)"
    unfolding tags_inv_def by (intro exI [of _ "[]"]) (simp add: registry_def)
  with loop sound show ?thesis
    using add_all_tags_inv [of h _ _ s' 0] by (simp add: initialize_loop_add_all)
qed

lemma lifetime_tags_inv:
  assumes "lifetime h0 calls s0 = Some (Inr s)"
      and "sound_allocator h0" and "\<forall>c \<in> set calls. sound_allocator (host_of c)"
  shows "tags_inv (allocations h0 calls) s"
proof -
  from assms(1) obtain s1 where init: "classTrack_initialize h0 s0 = Inr s1"
    and calls: "run_calls calls s1 = Some (Inr s)"
    by (auto simp: lifetime_def split: sum.splits)
  from run_calls_tags_inv [OF calls assms(3) initialize_tags_inv [OF init assms(2)]]
  show ?thesis by (simp add: allocations_def)
qed

lemma lifetime_registry:
  assumes "lifetime h0 calls s0 = Some (Inr s)"
      and "sound_allocator h0" and "\<forall>c \<in> set calls. sound_allocator (host_of c)"
  shows "\<exists>rs. registry s rs"
  using lifetime_tags_inv [OF assms] by (auto simp: tags_inv_def)

section \<open>Runs that wrap the counter around\<close>

lemma run_calls_append:
  "run_calls (xs @ ys) s =
     (case run_calls xs s of
        None \<Rightarrow> None
      | Some (Inl f) \<Rightarrow> Some (Inl f)
      | Some (Inr s') \<Rightarrow> run_calls ys s')"
proof (induction xs arbitrary: s)
  case Nil
  show ?case by simp
next
  case (Cons c xs)
  show ?case
    by (cases c) (simp_all add: Cons.IH split: sum.splits option.splits)
qed

lemma collecting_add:
  assumes h: "collecting h" and s: "idle s"
  shows "\<exists>s1 sg. classTrack_addPreparedClass h s klass = Inr s1 \<and>
           registry s1 [(1, currentKlassTag s + 1, sg)] \<and>
           snd (classSignature h klass) = sg \<and>
           dom (node_heap s1) = insert 1 (dom (node_heap s)) \<and>
           trackingEnv s1 \<noteq> None \<and>
           currentKlassTag s1 = currentKlassTag s + 1"
proof -
  from s obtain env where env: "trackingEnv s = Some env" by (auto simp: idle_def)
  from h have "fst (classSignature h klass) = JVMTI_ERROR_NONE"
    by (simp add: collecting_def)
  then obtain sg where sg: "classSignature h klass = (JVMTI_ERROR_NONE, sg)"
    by (cases "classSignature h klass") simp
  from h have "fst (SetTag h env klass (currentKlassTag s + 1)) = JVMTI_ERROR_NONE"
    by (simp add: collecting_def)
  then obtain env' where tagged: "SetTag h env klass (currentKlassTag s + 1) = (JVMTI_ERROR_NONE, env')"
    by (cases "SetTag h env klass (currentKlassTag s + 1)") simp
  have alloc: "jvmtiAllocate h (node_heap s) = Some 1"
    using h s by (simp add: collecting_def idle_def)
  have noassert: "\<not> assertOn h" using h by (simp add: collecting_def)
  let ?s1 = "s\<lparr>currentKlassTag := currentKlassTag s + 1, trackingEnv := Some env',
                node_heap := (node_heap s)(1 \<mapsto> new_node s sg), klass_list := Some 1\<rparr>"
  have "classTrack_addPreparedClass h s klass = Inr ?s1"
    using noassert env alloc sg tagged by (rule addPreparedClass_unchecked)
  moreover have "registry ?s1 [(1, currentKlassTag s + 1, sg)]"
    using s by (intro addPreparedClass_registry) (simp_all add: registry_def idle_def)
  ultimately show ?thesis using sg by auto
qed

lemma collecting_round:
  assumes h: "collecting h" and s: "idle s"
  shows "\<exists>s2. run_calls [AddPreparedClass h klass, ProcessUnloads h] s = Some (Inr s2) \<and>
           idle s2 \<and> currentKlassTag s2 = currentKlassTag s + 1"
proof -
  from collecting_add [OF h s, of klass]
  obtain s1 sg where add: "classTrack_addPreparedClass h s klass = Inr s1"
    and reg1: "registry s1 [(1, currentKlassTag s + 1, sg)]"
    and dom1: "dom (node_heap s1) = insert 1 (dom (node_heap s))"
    and env1: "trackingEnv s1 \<noteq> None"
    and tag1: "currentKlassTag s1 = currentKlassTag s + 1"
    by blast
  let ?rs = "[(1, currentKlassTag s + 1, sg)]"
  from env1 obtain env where env: "trackingEnv s1 = Some env" by auto
  have dead: "reported_unloaded h s1 r" for r
    using h by (simp add: reported_unloaded_iff [OF env] collecting_def)
  then have ok: "answers_ok h s1 ?rs" by (simp add: answers_ok_def)
  have no_live: "live_records h s1 ?rs = []" "unloaded_records h s1 ?rs = ?rs"
    using dead by (auto simp: live_records_def unloaded_records_def dest: reported_exclusive)
  from classTrack_processUnloads_correct [OF reg1, of h]
  obtain res where pass: "classTrack_processUnloads h s1 = Some res"
    and post: "pass_post h s1 ?rs res"
    by blast
  have bag: "bagCreateBag_ok h" "bag_grows h [] xs" for xs
    using h by (simp_all add: collecting_def bag_grows_always)
  obtain s2 sigs where res: "res = Inr (s2, sigs)"
  proof (cases res)
    case (Inl f)
    with post ok bag show ?thesis
      by (auto simp: pass_post_def dest: answers_ok_no_fatal)
  next
    case (Inr p)
    then show ?thesis using that by (cases p) simp
  qed
  from post res no_live have reg2: "registry s2 []"
    and dom2: "dom (node_heap s2) = dom (node_heap s1) - {1}"
    and glob: "same_globals s1 s2"
    by (simp_all add: pass_post_def)
  from dom2 have "1 \<notin> dom (node_heap s2)" by simp
  then have "node_heap s2 1 = None" by blast
  with reg2 glob env1 have "idle s2"
    by (simp add: idle_def registry_def same_globals_def)
  moreover have "currentKlassTag s2 = currentKlassTag s + 1"
    using glob tag1 by (simp add: same_globals_def)
  moreover have "run_calls [AddPreparedClass h klass, ProcessUnloads h] s = Some (Inr s2)"
    using add pass res by simp
  ultimately show ?thesis by blast
qed

lemma collecting_rounds:
  assumes h: "collecting h" and s: "idle s"
  shows "\<exists>s'. run_calls (rounds h n) s = Some (Inr s') \<and> idle s' \<and>
           currentKlassTag s' = currentKlassTag s + of_nat n"
  using s
proof (induction n arbitrary: s)
  case 0
  then show ?case by (simp add: rounds_def)
next
  case (Suc n)
  from collecting_round [OF h Suc.prems, of 1]
  obtain s2 where round: "run_calls [AddPreparedClass h 1, ProcessUnloads h] s = Some (Inr s2)"
    and idle2: "idle s2" and tag2: "currentKlassTag s2 = currentKlassTag s + 1"
    by blast
  from Suc.IH [OF idle2]
  obtain s' where rest: "run_calls (rounds h n) s2 = Some (Inr s')"
    and idle': "idle s'" and tag': "currentKlassTag s' = currentKlassTag s2 + of_nat n"
    by blast
  have "rounds h (Suc n) = [AddPreparedClass h 1, ProcessUnloads h] @ rounds h n"
    by (simp add: rounds_def)
  then have "run_calls (rounds h (Suc n)) s = Some (Inr s')"
    using round rest by (simp only: run_calls_append) simp
  with idle' tag' tag2 show ?case by (auto simp: add.assoc)
qed



lemma collecting_wrap_host: "collecting wrap_host" "collecting (recording wrap_host)"
  by (simp_all add: collecting_def wrap_host_def recording_def)


lemma wrap_host_initialize:
  "classTrack_initialize (recording wrap_host) initial_tracker =
     Inr (initial_tracker\<lparr>trackingEnv := Some ((), []), currentKlassTag := 0, klass_list := None\<rparr>)"
  "classTrack_initialize wrap_host initial_tracker =
     Inr (initial_tracker\<lparr>trackingEnv := Some (), currentKlassTag := 0, klass_list := None\<rparr>)"
  by (simp_all add: classTrack_initialize_def wrap_host_def recording_def)


lemma of_nat_wrap: "(of_nat (2 ^ 64) :: jlong) = 0"
  by (simp add: word_of_nat_eq_0_iff)



section \<open>The tag of the next insertion\<close>


section \<open>A run that hands out a tag that is still in the registry\<close>








section \<open>The claims about a processing pass\<close>

text \<open>
  Claim C1. Take any state whose \<open>list\<close> is a chain of nodes \<open>rs\<close> ending in \<open>NULL\<close>, and
  any oracle that answers each query for a tag of the chain without error and with a count of
  0 (no longer live) or 1 (still live). If the bag can be allocated,
  \<open>classTrack_processUnloads\<close> returns; the bag it returns holds exactly the signatures of
  the records reported as no longer live, and afterwards \<open>list\<close> is the chain of the records
  reported live, in the order they had before.
\<close>

theorem C1_processUnloads_partitions_registry:
  assumes "registry s rs"
      and "trackingEnv s = Some env"
      and "\<forall>r \<in> set rs. oracle_unloaded h env r \<or> oracle_live h env r"
      and "bagCreateBag_ok h" and "\<forall>b. bagAdd_ok h b"
  shows "\<exists>s' signatures.
           classTrack_processUnloads h s = Some (Inr (s', signatures)) \<and>
           mset signatures = mset (map signature_of (filter (oracle_unloaded h env) rs)) \<and>
           registry s' (filter (oracle_live h env) rs)"
  using assms by (rule processUnloads_partition)

theorem C1_processUnloads_partitions_registry_witness:
  "\<exists>s' signatures.
     classTrack_processUnloads (demo_host [1, 3]) demo_tracker = Some (Inr (s', signatures)) \<and>
     mset signatures = {#''LB;''#} \<and>
     registry s' [(3, 3, ''LC;''), (1, 1, ''LA;'')]"
proof -
  have answers: "\<forall>r \<in> set demo_records.
      oracle_unloaded (demo_host [1, 3]) demo_env r \<or> oracle_live (demo_host [1, 3]) demo_env r"
    by (simp add: oracle_unloaded_def oracle_live_def demo_defs)
  have bag: "bagCreateBag_ok (demo_host [1, 3])" "\<forall>b. bagAdd_ok (demo_host [1, 3]) b"
    by (simp_all add: demo_host_def)
  from C1_processUnloads_partitions_registry [OF demo_registry demo_trackingEnv answers bag]
  show ?thesis
    by (simp add: oracle_unloaded_def oracle_live_def demo_defs)
qed

text \<open>
  Claim C3. A pass over a chain \<open>rs\<close> always ends, and when it returns a bag the records of
  \<open>rs\<close> are split in two: the ones kept are the chain of \<open>list\<close> afterwards and their nodes
  are still allocated; the ones removed have each given one signature to the bag and their
  nodes have been given back to the allocator. The bag holds nothing else.
\<close>

theorem C3_processUnloads_no_leak_no_duplicate:
  assumes "registry s rs"
  shows "\<exists>res. classTrack_processUnloads h s = Some res \<and>
           (\<forall>s' signatures. res = Inr (s', signatures) \<longrightarrow>
              (\<exists>kept removed.
                 registry s' kept \<and>
                 mset rs = mset kept + mset removed \<and>
                 mset signatures = image_mset signature_of (mset removed) \<and>
                 set signatures \<subseteq> signature_of ` set rs \<and>
                 fst ` set kept \<subseteq> dom (node_heap s') \<and>
                 dom (node_heap s') = dom (node_heap s) - fst ` set removed))"
proof -
  from classTrack_processUnloads_correct [OF assms]
  obtain res where res: "classTrack_processUnloads h s = Some res" and post: "pass_post h s rs res"
    by blast
  have "\<exists>kept removed.
          registry s' kept \<and> mset rs = mset kept + mset removed \<and>
          mset signatures = image_mset signature_of (mset removed) \<and>
          set signatures \<subseteq> signature_of ` set rs \<and>
          fst ` set kept \<subseteq> dom (node_heap s') \<and>
          dom (node_heap s') = dom (node_heap s) - fst ` set removed"
    if r: "res = Inr (s', signatures)" for s' signatures
  proof -
    let ?kept = "live_records h s rs" and ?removed = "unloaded_records h s rs"
    from post r have ok: "answers_ok h s rs"
      and sigs: "signatures = map signature_of (rev ?removed)"
      and reg': "registry s' ?kept"
      and dom': "dom (node_heap s') = dom (node_heap s) - fst ` set ?removed"
      by (simp_all add: pass_post_def)
    have "filter (reported_live h s) rs = filter (\<lambda>r. \<not> reported_unloaded h s r) rs"
      using ok by (intro filter_cong) (auto simp: answers_ok_def dest: reported_exclusive)
    then have "mset rs = mset ?kept + mset ?removed"
      by (simp add: live_records_def unloaded_records_def)
    moreover have "mset signatures = image_mset signature_of (mset ?removed)"
      using sigs by simp
    moreover have "set signatures \<subseteq> signature_of ` set rs"
      using sigs by (auto simp: unloaded_records_def)
    moreover have "fst ` set ?kept \<subseteq> dom (node_heap s')"
      using reg' unfolding registry_def by (rule klass_seg_allocated)
    ultimately show ?thesis using reg' dom' by blast
  qed
  with res show ?thesis by blast
qed

theorem C3_processUnloads_no_leak_no_duplicate_witness:
  "\<exists>res. classTrack_processUnloads (demo_host [1, 3]) demo_tracker = Some res \<and>
     (\<exists>s'. res = Inr (s', [''LB;'']) \<and>
        (\<exists>kept removed.
           registry s' kept \<and>
           mset demo_records = mset kept + mset removed \<and>
           {#''LB;''#} = image_mset signature_of (mset removed) \<and>
           set [''LB;''] \<subseteq> signature_of ` set demo_records \<and>
           fst ` set kept \<subseteq> dom (node_heap s') \<and>
           dom (node_heap s') = dom (node_heap demo_tracker) - fst ` set removed))"
proof -
  have reg: "registry demo_tracker demo_records"
    by (simp add: registry_def demo_tracker_def demo_records_def tag_of_def signature_of_def)
  have run: "\<exists>s'. classTrack_processUnloads (demo_host [1, 3]) demo_tracker = Some (Inr (s', [''LB;'']))"
    by (simp add: classTrack_processUnloads_def processUnloads_loop.simps deleteList_def
        deleteList_loop.simps demo_tracker_def demo_host_def demo_env_def isClassUnloaded_def
        write_slot_def read_slot_def bagCreateBag_def bagAdd_def)
  from C3_processUnloads_no_leak_no_duplicate [OF reg, of "demo_host [1, 3]"] run
  show ?thesis by auto
qed

text \<open>
  Claim C4. For a query that succeeds, \<open>isClassUnloaded\<close> answers "unloaded" for the count 0,
  "still loaded" for the count 1, and ends the process with \<open>AGENT_ERROR_INTERNAL\<close> for any
  other count. A pass over a chain that has a record whose tag is given such a count does not
  return a result: it ends the process, with that error when every query succeeds.
\<close>

theorem C4_unexpected_count_is_fatal:
  assumes env: "trackingEnv s = Some env"
  shows "(GetObjectsWithTags h env t = (JVMTI_ERROR_NONE, 0) \<longrightarrow> isClassUnloaded h s t = Inr True) \<and>
         (GetObjectsWithTags h env t = (JVMTI_ERROR_NONE, 1) \<longrightarrow> isClassUnloaded h s t = Inr False) \<and>
         (\<forall>c. GetObjectsWithTags h env t = (JVMTI_ERROR_NONE, c) \<and> c \<noteq> 0 \<and> c \<noteq> 1 \<longrightarrow>
              isClassUnloaded h s t =
                Inl (EXIT_ERROR AGENT_ERROR_INTERNAL ''Unexpected extra tags in trackingEnv!'')) \<and>
         (\<forall>rs. registry s rs \<and>
              (\<exists>r \<in> set rs. \<exists>c. GetObjectsWithTags h env (tag_of r) = (JVMTI_ERROR_NONE, c) \<and>
                 c \<noteq> 0 \<and> c \<noteq> 1) \<longrightarrow>
              (\<exists>f. classTrack_processUnloads h s = Some (Inl f) \<and>
                 ((\<forall>r \<in> set rs. fst (GetObjectsWithTags h env (tag_of r)) = JVMTI_ERROR_NONE) \<longrightarrow>
                    f = EXIT_ERROR AGENT_ERROR_INTERNAL ''Unexpected extra tags in trackingEnv!'')))"
proof (intro conjI allI impI)
  show "isClassUnloaded h s t = Inr True" if "GetObjectsWithTags h env t = (JVMTI_ERROR_NONE, 0)"
    using isClassUnloaded_answer [OF env that] by simp
  show "isClassUnloaded h s t = Inr False" if "GetObjectsWithTags h env t = (JVMTI_ERROR_NONE, 1)"
    using isClassUnloaded_answer [OF env that] by simp
  show "isClassUnloaded h s t =
      Inl (EXIT_ERROR AGENT_ERROR_INTERNAL ''Unexpected extra tags in trackingEnv!'')"
    if "GetObjectsWithTags h env t = (JVMTI_ERROR_NONE, c) \<and> c \<noteq> 0 \<and> c \<noteq> 1" for c
    using that isClassUnloaded_answer [OF env, of h t c] by simp
next
  fix rs
  assume a: "registry s rs \<and>
    (\<exists>r \<in> set rs. \<exists>c. GetObjectsWithTags h env (tag_of r) = (JVMTI_ERROR_NONE, c) \<and> c \<noteq> 0 \<and> c \<noteq> 1)"
  then obtain r c where r: "r \<in> set rs"
    and c: "GetObjectsWithTags h env (tag_of r) = (JVMTI_ERROR_NONE, c)" "c \<noteq> 0" "c \<noteq> 1"
    by blast
  from a have reg: "registry s rs" by simp
  from isClassUnloaded_answer [OF env c(1)] c(2,3)
  have bad: "isClassUnloaded h s (tag_of r) =
      Inl (EXIT_ERROR AGENT_ERROR_INTERNAL ''Unexpected extra tags in trackingEnv!'')"
    by simp
  have not_ok: "\<not> answers_ok h s rs"
    using answers_ok_no_fatal [OF _ r] bad by blast
  from classTrack_processUnloads_correct [OF reg]
  obtain res where res: "classTrack_processUnloads h s = Some res" and post: "pass_post h s rs res"
    by blast
  from post not_ok obtain f r' where f: "res = Inl f"
    and r': "r' \<in> set rs" "isClassUnloaded h s (tag_of r') = Inl f"
    by (cases res) (auto simp: pass_post_def)
  have "f = EXIT_ERROR AGENT_ERROR_INTERNAL ''Unexpected extra tags in trackingEnv!''"
    if "\<forall>r \<in> set rs. fst (GetObjectsWithTags h env (tag_of r)) = JVMTI_ERROR_NONE"
  proof -
    from that r'(1) have "fst (GetObjectsWithTags h env (tag_of r')) = JVMTI_ERROR_NONE" by simp
    then obtain c' where "GetObjectsWithTags h env (tag_of r') = (JVMTI_ERROR_NONE, c')"
      by (cases "GetObjectsWithTags h env (tag_of r')") simp
    from isClassUnloaded_answer [OF env this] r'(2) show ?thesis
      by (simp split: if_splits)
  qed
  with res f
  show "\<exists>f. classTrack_processUnloads h s = Some (Inl f) \<and>
      ((\<forall>r \<in> set rs. fst (GetObjectsWithTags h env (tag_of r)) = JVMTI_ERROR_NONE) \<longrightarrow>
         f = EXIT_ERROR AGENT_ERROR_INTERNAL ''Unexpected extra tags in trackingEnv!'')"
    by blast
qed

theorem C4_unexpected_count_is_fatal_witness:
  "isClassUnloaded (demo_host [1]) demo_tracker 2 = Inr True \<and>
   isClassUnloaded (demo_host [1]) demo_tracker 1 = Inr False \<and>
   isClassUnloaded faulty_host demo_tracker 2 =
     Inl (EXIT_ERROR AGENT_ERROR_INTERNAL ''Unexpected extra tags in trackingEnv!'') \<and>
   classTrack_processUnloads faulty_host demo_tracker =
     Some (Inl (EXIT_ERROR AGENT_ERROR_INTERNAL ''Unexpected extra tags in trackingEnv!''))"
proof -
  note c4 = C4_unexpected_count_is_fatal [OF demo_trackingEnv]
  have "isClassUnloaded (demo_host [1]) demo_tracker 2 = Inr True"
    using c4 [of "demo_host [1]" 2] by (simp add: demo_defs)
  moreover have "isClassUnloaded (demo_host [1]) demo_tracker 1 = Inr False"
    using c4 [of "demo_host [1]" 1] by (simp add: demo_defs)
  moreover have "isClassUnloaded faulty_host demo_tracker 2 =
      Inl (EXIT_ERROR AGENT_ERROR_INTERNAL ''Unexpected extra tags in trackingEnv!'')"
    using c4 [of faulty_host 2] by (simp add: faulty_host_def demo_defs)
  moreover have "classTrack_processUnloads faulty_host demo_tracker =
      Some (Inl (EXIT_ERROR AGENT_ERROR_INTERNAL ''Unexpected extra tags in trackingEnv!''))"
    using c4 [of faulty_host 2, THEN conjunct2, THEN conjunct2, THEN conjunct2, THEN spec,
        of demo_records] demo_registry
    by (simp add: faulty_host_def demo_defs)
  ultimately show ?thesis by simp
qed

text \<open>
  Claim C5. When the oracle reports the tag of every record of the chain as live and the bag
  can be created, the pass returns the empty bag and the state it was given, unchanged in
  every field. And when a class has just been inserted and the pass finds its tag live, its
  record is still the head of the chain afterwards and the bag holds only signatures of
  records that were removed from the older part of the chain.
\<close>

theorem C5_pass_without_unloads:
  "(registry s rs \<and> trackingEnv s = Some env \<and> bagCreateBag_ok h \<and>
    (\<forall>r \<in> set rs. oracle_live h env r) \<longrightarrow>
      classTrack_processUnloads h s = Some (Inr (s, []))) \<and>
   (registry s0 rs0 \<and> jvmtiAllocate h0 (node_heap s0) = Some a \<and> node_heap s0 a = None \<and>
    classTrack_addPreparedClass h0 s0 klass = Inr s1 \<and> trackingEnv s1 = Some env1 \<and>
    GetObjectsWithTags h1 env1 (currentKlassTag s1) = (JVMTI_ERROR_NONE, 1) \<and>
    (\<forall>r \<in> set rs0. oracle_unloaded h1 env1 r \<or> oracle_live h1 env1 r) \<and>
    bagCreateBag_ok h1 \<and> (\<forall>b. bagAdd_ok h1 b) \<longrightarrow>
      (\<exists>s2 signatures.
         classTrack_processUnloads h1 s1 = Some (Inr (s2, signatures)) \<and>
         registry s2 ((a, currentKlassTag s1, snd (classSignature h0 klass)) #
                      filter (oracle_live h1 env1) rs0) \<and>
         mset signatures = mset (map signature_of (filter (oracle_unloaded h1 env1) rs0))))"
proof (intro conjI impI)
  assume a: "registry s rs \<and> trackingEnv s = Some env \<and> bagCreateBag_ok h \<and>
    (\<forall>r \<in> set rs. oracle_live h env r)"
  then have "\<forall>r \<in> set rs. reported_live h s r"
    by (simp add: reported_live_iff oracle_live_def)
  with a show "classTrack_processUnloads h s = Some (Inr (s, []))"
    by (intro processUnloads_all_live) simp_all
next
  assume a: "registry s0 rs0 \<and> jvmtiAllocate h0 (node_heap s0) = Some a \<and> node_heap s0 a = None \<and>
    classTrack_addPreparedClass h0 s0 klass = Inr s1 \<and> trackingEnv s1 = Some env1 \<and>
    GetObjectsWithTags h1 env1 (currentKlassTag s1) = (JVMTI_ERROR_NONE, 1) \<and>
    (\<forall>r \<in> set rs0. oracle_unloaded h1 env1 r \<or> oracle_live h1 env1 r) \<and>
    bagCreateBag_ok h1 \<and> (\<forall>b. bagAdd_ok h1 b)"
  let ?new = "(a, currentKlassTag s1, snd (classSignature h0 klass))"
  from a have add: "classTrack_addPreparedClass h0 s0 klass = Inr s1" by simp
  from addPreparedClass_Inr [OF add] a
  obtain sg where sg: "classSignature h0 klass = (JVMTI_ERROR_NONE, sg)"
    and heap1: "node_heap s1 = (node_heap s0)(a \<mapsto> new_node s0 sg)"
    and list1: "klass_list s1 = Some a"
    and tag1: "currentKlassTag s1 = currentKlassTag s0 + 1"
    by auto
  have "registry s1 ((a, currentKlassTag s0 + 1, sg) # rs0)"
    using a heap1 list1 by (intro addPreparedClass_registry) simp_all
  then have reg1: "registry s1 (?new # rs0)"
    by (simp add: tag1 sg)
  have live: "oracle_live h1 env1 ?new" "\<not> oracle_unloaded h1 env1 ?new"
    using a by (simp_all add: oracle_live_def oracle_unloaded_def tag_of_def)
  then have answers: "\<forall>r \<in> set (?new # rs0). oracle_unloaded h1 env1 r \<or> oracle_live h1 env1 r"
    using a by simp
  from processUnloads_partition [OF reg1 _ answers] a live
  show "\<exists>s2 signatures.
      classTrack_processUnloads h1 s1 = Some (Inr (s2, signatures)) \<and>
      registry s2 (?new # filter (oracle_live h1 env1) rs0) \<and>
      mset signatures = mset (map signature_of (filter (oracle_unloaded h1 env1) rs0))"
    by auto
qed

theorem C5_pass_without_unloads_witness:
  "classTrack_processUnloads (demo_host [1, 2, 3]) demo_tracker = Some (Inr (demo_tracker, [])) \<and>
   (\<exists>s2 signatures.
      classTrack_processUnloads (demo_host [1, 3, 4]) demo_tracker_D = Some (Inr (s2, signatures)) \<and>
      registry s2 [(4, 4, ''LD;''), (3, 3, ''LC;''), (1, 1, ''LA;'')] \<and>
      mset signatures = {#''LB;''#})"
proof -
  have add: "classTrack_addPreparedClass (demo_host [1, 2, 3, 4]) demo_tracker 4 = Inr demo_tracker_D"
    by (simp add: classTrack_addPreparedClass_def JDI_ASSERT_FAILED_def Let_def demo_defs
        demo_tracker_D_def)
  note c5 = C5_pass_without_unloads [of demo_tracker demo_records demo_env "demo_host [1, 2, 3]"
      demo_tracker demo_records "demo_host [1, 2, 3, 4]" 4 4 demo_tracker_D "demo_env(4 := 4)"
      "demo_host [1, 3, 4]"]
  have "classTrack_processUnloads (demo_host [1, 2, 3]) demo_tracker = Some (Inr (demo_tracker, []))"
    using c5 [THEN conjunct1] demo_registry
    by (simp add: oracle_live_def demo_defs)
  moreover have "\<exists>s2 signatures.
      classTrack_processUnloads (demo_host [1, 3, 4]) demo_tracker_D = Some (Inr (s2, signatures)) \<and>
      registry s2 [(4, 4, ''LD;''), (3, 3, ''LC;''), (1, 1, ''LA;'')] \<and>
      mset signatures = {#''LB;''#}"
    using c5 [THEN conjunct2] demo_registry add
    by (simp add: oracle_live_def oracle_unloaded_def demo_defs demo_tracker_D_def)
  ultimately show ?thesis by simp
qed

section \<open>The claims about an insertion\<close>




text \<open>
  Claim C8. With assertions on and a successful \<open>GetTag\<close>: for a class whose tag is not zero
  \<open>JDI_ASSERT_FAILED\<close> is reached with the message of the duplicate insertion; the call ends
  as the macro does when the macro ends the process, and when the macro returns the failure
  has been recorded and the insertion is carried out all the same. For a class whose tag is
  zero the macro is not reached and the insertion is the one of claim C6: when the allocator
  hands out an unused address and the signature lookup and \<open>SetTag\<close> succeed, the call returns
  with no failed assertion recorded, the new record at the head of the chain, the counter
  one higher and the class tagged; when the allocator, the signature lookup or \<open>SetTag\<close>
  fails, the call ends with the error of that step.
\<close>

theorem C8_duplicate_insertion_assertion:
  assumes "assertOn h" and "trackingEnv s = Some env"
      and "GetTag h env klass = (JVMTI_ERROR_NONE, tag)"
  shows "(tag \<noteq> 0 \<longrightarrow>
            classTrack_addPreparedClass h s klass =
              (case JDI_ASSERT_FAILED h ''Attempting to insert duplicate class'' s of
                 Inl f \<Rightarrow> Inl f
               | Inr s1 \<Rightarrow> classTrack_addPreparedClass (h\<lparr>assertOn := False\<rparr>) s1 klass) \<and>
            (\<forall>f. assertFatal h = Some f \<longrightarrow> classTrack_addPreparedClass h s klass = Inl f) \<and>
            (\<forall>rs a sg env'.
               assertFatal h = None \<and> registry s rs \<and>
               jvmtiAllocate h (node_heap s) = Some a \<and> node_heap s a = None \<and>
               classSignature h klass = (JVMTI_ERROR_NONE, sg) \<and>
               SetTag h env klass (currentKlassTag s + 1) = (JVMTI_ERROR_NONE, env') \<longrightarrow>
                 (\<exists>s'. classTrack_addPreparedClass h s klass = Inr s' \<and>
                    assertions_failed s' =
                      assertions_failed s @ [''Attempting to insert duplicate class''] \<and>
                    registry s' ((a, currentKlassTag s + 1, sg) # rs) \<and>
                    currentKlassTag s' = currentKlassTag s + 1 \<and>
                    trackingEnv s' = Some env'))) \<and>
         (tag = 0 \<longrightarrow>
            classTrack_addPreparedClass h s klass =
              classTrack_addPreparedClass (h\<lparr>assertOn := False\<rparr>) s klass \<and>
            (\<forall>s'. classTrack_addPreparedClass h s klass = Inr s' \<longrightarrow>
                assertions_failed s' = assertions_failed s) \<and>
            (\<forall>rs a sg env'.
               registry s rs \<and>
               jvmtiAllocate h (node_heap s) = Some a \<and> node_heap s a = None \<and>
               classSignature h klass = (JVMTI_ERROR_NONE, sg) \<and>
               SetTag h env klass (currentKlassTag s + 1) = (JVMTI_ERROR_NONE, env') \<longrightarrow>
                 (\<exists>s'. classTrack_addPreparedClass h s klass = Inr s' \<and>
                    assertions_failed s' = assertions_failed s \<and>
                    registry s' ((a, currentKlassTag s + 1, sg) # rs) \<and>
                    currentKlassTag s' = currentKlassTag s + 1 \<and>
                    trackingEnv s' = Some env')) \<and>
            (jvmtiAllocate h (node_heap s) = None \<longrightarrow>
               classTrack_addPreparedClass h s klass =
                 Inl (EXIT_ERROR AGENT_ERROR_OUT_OF_MEMORY ''KlassNode'')) \<and>
            (\<forall>a e sg.
               jvmtiAllocate h (node_heap s) = Some a \<and> classSignature h klass = (e, sg) \<and>
               e \<noteq> JVMTI_ERROR_NONE \<longrightarrow>
                 classTrack_addPreparedClass h s klass = Inl (EXIT_ERROR e ''signature'')) \<and>
            (\<forall>a sg e env'.
               jvmtiAllocate h (node_heap s) = Some a \<and>
               classSignature h klass = (JVMTI_ERROR_NONE, sg) \<and>
               SetTag h env klass (currentKlassTag s + 1) = (e, env') \<and>
               e \<noteq> JVMTI_ERROR_NONE \<longrightarrow>
                 classTrack_addPreparedClass h s klass = Inl (EXIT_ERROR e ''SetTag'')))"
proof (intro conjI impI allI)
  let ?h = "h\<lparr>assertOn := False\<rparr>"
  let ?msg = "''Attempting to insert duplicate class''"
  note checked = addPreparedClass_checked [OF assms]
  {
    assume tag: "tag \<noteq> 0"
    from checked tag
    show eq: "classTrack_addPreparedClass h s klass =
        (case JDI_ASSERT_FAILED h ?msg s of
           Inl f \<Rightarrow> Inl f
         | Inr s1 \<Rightarrow> classTrack_addPreparedClass ?h s1 klass)"
      by simp
    {
      fix f
      assume "assertFatal h = Some f"
      with eq show "classTrack_addPreparedClass h s klass = Inl f"
        by (simp add: JDI_ASSERT_FAILED_def)
    }
    {
      fix rs a sg env'
      assume hyp: "assertFatal h = None \<and> registry s rs \<and>
               jvmtiAllocate h (node_heap s) = Some a \<and> node_heap s a = None \<and>
               classSignature h klass = (JVMTI_ERROR_NONE, sg) \<and>
               SetTag h env klass (currentKlassTag s + 1) = (JVMTI_ERROR_NONE, env')"
      let ?s1 = "s\<lparr>assertions_failed := assertions_failed s @ [?msg]\<rparr>"
      from hyp eq have run: "classTrack_addPreparedClass h s klass =
          classTrack_addPreparedClass ?h ?s1 klass"
        by (simp add: JDI_ASSERT_FAILED_def)
      from hyp have reg1: "registry ?s1 rs"
        by (simp add: registry_assertions_failed)
      have env1: "trackingEnv ?s1 = Some env"
        using assms(2) by simp
      have off: "assertOn ?h \<longrightarrow> GetTag ?h env klass = (JVMTI_ERROR_NONE, 0)"
        by simp
      from hyp have host: "jvmtiAllocate ?h (node_heap ?s1) = Some a" "node_heap ?s1 a = None"
        "classSignature ?h klass = (JVMTI_ERROR_NONE, sg)"
        "SetTag ?h env klass (currentKlassTag ?s1 + 1) = (JVMTI_ERROR_NONE, env')"
        by simp_all
      from addPreparedClass_pushes [OF reg1 env1 off host]
      show "\<exists>s'. classTrack_addPreparedClass h s klass = Inr s' \<and>
          assertions_failed s' = assertions_failed s @ [?msg] \<and>
          registry s' ((a, currentKlassTag s + 1, sg) # rs) \<and>
          currentKlassTag s' = currentKlassTag s + 1 \<and>
          trackingEnv s' = Some env'"
        unfolding run by auto
    }
  }
  {
    assume tag: "tag = 0"
    from checked tag
    show eq: "classTrack_addPreparedClass h s klass = classTrack_addPreparedClass ?h s klass"
      by simp
    have off: "\<not> assertOn ?h" by simp
    {
      fix s'
      assume "classTrack_addPreparedClass h s klass = Inr s'"
      with eq have "classTrack_addPreparedClass ?h s klass = Inr s'" by simp
      with off show "assertions_failed s' = assertions_failed s"
        by (rule addPreparedClass_unchecked_log)
    }
    {
      fix rs a sg env'
      assume hyp: "registry s rs \<and>
               jvmtiAllocate h (node_heap s) = Some a \<and> node_heap s a = None \<and>
               classSignature h klass = (JVMTI_ERROR_NONE, sg) \<and>
               SetTag h env klass (currentKlassTag s + 1) = (JVMTI_ERROR_NONE, env')"
      then have reg: "registry s rs"
        and host: "jvmtiAllocate h (node_heap s) = Some a" "node_heap s a = None"
        "classSignature h klass = (JVMTI_ERROR_NONE, sg)"
        "SetTag h env klass (currentKlassTag s + 1) = (JVMTI_ERROR_NONE, env')"
        by blast+
      from assms(3) tag have untagged: "assertOn h \<longrightarrow> GetTag h env klass = (JVMTI_ERROR_NONE, 0)"
        by simp
      from addPreparedClass_pushes [OF reg assms(2) untagged host]
      show "\<exists>s'. classTrack_addPreparedClass h s klass = Inr s' \<and>
          assertions_failed s' = assertions_failed s \<and>
          registry s' ((a, currentKlassTag s + 1, sg) # rs) \<and>
          currentKlassTag s' = currentKlassTag s + 1 \<and>
          trackingEnv s' = Some env'"
        by auto
    }
    {
      assume "jvmtiAllocate h (node_heap s) = None"
      then have "jvmtiAllocate ?h (node_heap s) = None" by simp
      from addPreparedClass_fails(1) [OF off assms(2) this]
      show "classTrack_addPreparedClass h s klass =
          Inl (EXIT_ERROR AGENT_ERROR_OUT_OF_MEMORY ''KlassNode'')"
        unfolding eq .
    }
    {
      fix a e sg
      assume "jvmtiAllocate h (node_heap s) = Some a \<and> classSignature h klass = (e, sg) \<and>
               e \<noteq> JVMTI_ERROR_NONE"
      then have "jvmtiAllocate ?h (node_heap s) = Some a" "classSignature ?h klass = (e, sg)"
        "e \<noteq> JVMTI_ERROR_NONE"
        by simp_all
      from addPreparedClass_fails(2) [OF off assms(2) this]
      show "classTrack_addPreparedClass h s klass = Inl (EXIT_ERROR e ''signature'')"
        unfolding eq .
    }
    {
      fix a sg e env'
      assume "jvmtiAllocate h (node_heap s) = Some a \<and>
               classSignature h klass = (JVMTI_ERROR_NONE, sg) \<and>
               SetTag h env klass (currentKlassTag s + 1) = (e, env') \<and>
               e \<noteq> JVMTI_ERROR_NONE"
      then have "jvmtiAllocate ?h (node_heap s) = Some a"
        "classSignature ?h klass = (JVMTI_ERROR_NONE, sg)"
        "SetTag ?h env klass (currentKlassTag s + 1) = (e, env')"
        "e \<noteq> JVMTI_ERROR_NONE"
        by simp_all
      from addPreparedClass_fails(3) [OF off assms(2) this]
      show "classTrack_addPreparedClass h s klass = Inl (EXIT_ERROR e ''SetTag'')"
        unfolding eq .
    }
  }
qed

theorem C8_duplicate_insertion_assertion_witness:
  "(\<exists>s'. classTrack_addPreparedClass (demo_host [1, 2, 3]) demo_tracker 2 = Inr s' \<and>
      assertions_failed s' = [''Attempting to insert duplicate class''] \<and>
      registry s' ((4, 4, ''LB;'') # demo_records) \<and>
      currentKlassTag s' = 4 \<and> trackingEnv s' = Some (demo_env(2 := 4))) \<and>
   classTrack_addPreparedClass
     ((demo_host [1, 2, 3])\<lparr>assertFatal := Some (EXIT_ERROR AGENT_ERROR_INTERNAL ''assert'')\<rparr>)
     demo_tracker 2 = Inl (EXIT_ERROR AGENT_ERROR_INTERNAL ''assert'') \<and>
   (\<exists>s'. classTrack_addPreparedClass (demo_host [1, 2, 3, 4]) demo_tracker 4 = Inr s' \<and>
      assertions_failed s' = [] \<and>
      registry s' ((4, 4, ''LD;'') # demo_records) \<and>
      currentKlassTag s' = 4 \<and> trackingEnv s' = Some (demo_env(4 := 4))) \<and>
   classTrack_addPreparedClass ((demo_host [1, 2, 3])\<lparr>jvmtiAllocate := \<lambda>hp. None\<rparr>)
     demo_tracker 4 = Inl (EXIT_ERROR AGENT_ERROR_OUT_OF_MEMORY ''KlassNode'') \<and>
   classTrack_addPreparedClass
     ((demo_host [1, 2, 3])\<lparr>classSignature := \<lambda>k. (JVMTI_ERROR 1, [])\<rparr>)
     demo_tracker 4 = Inl (EXIT_ERROR (JVMTI_ERROR 1) ''signature'') \<and>
   classTrack_addPreparedClass
     ((demo_host [1, 2, 3])\<lparr>SetTag := \<lambda>env k t. (JVMTI_ERROR 1, env)\<rparr>)
     demo_tracker 4 = Inl (EXIT_ERROR (JVMTI_ERROR 1) ''SetTag'')"
proof -
  let ?msg = "''Attempting to insert duplicate class''"
  let ?h = "demo_host [1, 2, 3]"
  let ?fatal = "?h\<lparr>assertFatal := Some (EXIT_ERROR AGENT_ERROR_INTERNAL ''assert'')\<rparr>"
  let ?h4 = "demo_host [1, 2, 3, 4]"
  let ?full = "?h\<lparr>jvmtiAllocate := \<lambda>hp. None\<rparr>"
  let ?nosig = "?h\<lparr>classSignature := \<lambda>k. (JVMTI_ERROR 1, [])\<rparr>"
  let ?notag = "?h\<lparr>SetTag := \<lambda>env k t. (JVMTI_ERROR 1, env)\<rparr>"
  have c: "currentKlassTag demo_tracker + 1 = 4" "assertions_failed demo_tracker = []"
    by (simp_all add: demo_tracker_def)
  have dup: "assertOn ?h" "GetTag ?h demo_env 2 = (JVMTI_ERROR_NONE, 2)" "(2 :: jlong) \<noteq> 0"
    "assertFatal ?h = None \<and> registry demo_tracker demo_records \<and>
     jvmtiAllocate ?h (node_heap demo_tracker) = Some 4 \<and> node_heap demo_tracker 4 = None \<and>
     classSignature ?h 2 = (JVMTI_ERROR_NONE, ''LB;'') \<and>
     SetTag ?h demo_env 2 (currentKlassTag demo_tracker + 1) =
       (JVMTI_ERROR_NONE, demo_env(2 := 4))"
    using demo_registry by (simp_all add: demo_defs)
  from C8_duplicate_insertion_assertion [OF dup(1) demo_trackingEnv dup(2)] dup(3,4)
  have "\<exists>s'. classTrack_addPreparedClass ?h demo_tracker 2 = Inr s' \<and>
      assertions_failed s' = assertions_failed demo_tracker @ [?msg] \<and>
      registry s' ((4, currentKlassTag demo_tracker + 1, ''LB;'') # demo_records) \<and>
      currentKlassTag s' = currentKlassTag demo_tracker + 1 \<and>
      trackingEnv s' = Some (demo_env(2 := 4))"
    by blast
  then have first: "\<exists>s'. classTrack_addPreparedClass ?h demo_tracker 2 = Inr s' \<and>
      assertions_failed s' = [?msg] \<and>
      registry s' ((4, 4, ''LB;'') # demo_records) \<and>
      currentKlassTag s' = 4 \<and> trackingEnv s' = Some (demo_env(2 := 4))"
    unfolding c by simp
  have fatal: "assertOn ?fatal" "GetTag ?fatal demo_env 2 = (JVMTI_ERROR_NONE, 2)"
    "assertFatal ?fatal = Some (EXIT_ERROR AGENT_ERROR_INTERNAL ''assert'')"
    by (simp_all add: demo_defs)
  from C8_duplicate_insertion_assertion [OF fatal(1) demo_trackingEnv fatal(2)] dup(3) fatal(3)
  have second: "classTrack_addPreparedClass ?fatal demo_tracker 2 =
      Inl (EXIT_ERROR AGENT_ERROR_INTERNAL ''assert'')"
    by blast
  have new: "assertOn ?h4" "GetTag ?h4 demo_env 4 = (JVMTI_ERROR_NONE, 0)"
    "registry demo_tracker demo_records \<and>
     jvmtiAllocate ?h4 (node_heap demo_tracker) = Some 4 \<and> node_heap demo_tracker 4 = None \<and>
     classSignature ?h4 4 = (JVMTI_ERROR_NONE, ''LD;'') \<and>
     SetTag ?h4 demo_env 4 (currentKlassTag demo_tracker + 1) =
       (JVMTI_ERROR_NONE, demo_env(4 := 4))"
    using demo_registry by (simp_all add: demo_defs)
  from C8_duplicate_insertion_assertion [OF new(1) demo_trackingEnv new(2)] new(3)
  have "\<exists>s'. classTrack_addPreparedClass ?h4 demo_tracker 4 = Inr s' \<and>
      assertions_failed s' = assertions_failed demo_tracker \<and>
      registry s' ((4, currentKlassTag demo_tracker + 1, ''LD;'') # demo_records) \<and>
      currentKlassTag s' = currentKlassTag demo_tracker + 1 \<and>
      trackingEnv s' = Some (demo_env(4 := 4))"
    by blast
  then have third: "\<exists>s'. classTrack_addPreparedClass ?h4 demo_tracker 4 = Inr s' \<and>
      assertions_failed s' = [] \<and>
      registry s' ((4, 4, ''LD;'') # demo_records) \<and>
      currentKlassTag s' = 4 \<and> trackingEnv s' = Some (demo_env(4 := 4))"
    unfolding c by simp
  have full: "assertOn ?full" "GetTag ?full demo_env 4 = (JVMTI_ERROR_NONE, 0)"
    "jvmtiAllocate ?full (node_heap demo_tracker) = None"
    by (simp_all add: demo_defs)
  from C8_duplicate_insertion_assertion [OF full(1) demo_trackingEnv full(2)] full(3)
  have fourth: "classTrack_addPreparedClass ?full demo_tracker 4 =
      Inl (EXIT_ERROR AGENT_ERROR_OUT_OF_MEMORY ''KlassNode'')"
    by blast
  have nosig: "assertOn ?nosig" "GetTag ?nosig demo_env 4 = (JVMTI_ERROR_NONE, 0)"
    "jvmtiAllocate ?nosig (node_heap demo_tracker) = Some 4 \<and>
     classSignature ?nosig 4 = (JVMTI_ERROR 1, []) \<and> JVMTI_ERROR 1 \<noteq> JVMTI_ERROR_NONE"
    by (simp_all add: demo_defs)
  from C8_duplicate_insertion_assertion [OF nosig(1) demo_trackingEnv nosig(2)] nosig(3)
  have fifth: "classTrack_addPreparedClass ?nosig demo_tracker 4 =
      Inl (EXIT_ERROR (JVMTI_ERROR 1) ''signature'')"
    by blast
  have notag: "assertOn ?notag" "GetTag ?notag demo_env 4 = (JVMTI_ERROR_NONE, 0)"
    "jvmtiAllocate ?notag (node_heap demo_tracker) = Some 4 \<and>
     classSignature ?notag 4 = (JVMTI_ERROR_NONE, ''LD;'') \<and>
     SetTag ?notag demo_env 4 (currentKlassTag demo_tracker + 1) = (JVMTI_ERROR 1, demo_env) \<and>
     JVMTI_ERROR 1 \<noteq> JVMTI_ERROR_NONE"
    by (simp_all add: demo_defs)
  from C8_duplicate_insertion_assertion [OF notag(1) demo_trackingEnv notag(2)] notag(3)
  have sixth: "classTrack_addPreparedClass ?notag demo_tracker 4 =
      Inl (EXIT_ERROR (JVMTI_ERROR 1) ''SetTag'')"
    by blast
  from first second third fourth fifth sixth show ?thesis
    by (intro conjI)
qed

section \<open>The claim about initialization\<close>

text \<open>
  Claim C7. When \<open>classTrack_initialize\<close> returns, the enumeration has succeeded and a
  JVMTI environment has been obtained; the state is the one reached from the empty registry,
  the counter 0 and that environment by inserting, with \<open>classTrack_addPreparedClass\<close> and in
  the order of the enumeration, the classes whose status has the "prepared" or the "is-array"
  flag, and no others. With an allocator that hands out unused memory the registry then
  holds one record for each of these classes, the last one first, the \<open>k\<close>-th class carrying
  the tag \<open>k\<close> and its signature; the tags differ from one another (\<open>classCount\<close> is a
  \<open>jint\<close>, so there are fewer than \<open>2^31\<close> classes).
\<close>

theorem C7_initialize_tracks_prepared_classes:
  assumes init: "classTrack_initialize h s = Inr s'"
      and sound: "sound_allocator h"
      and loaded: "allLoadedClasses h = (error, classes)"
      and count: "length classes < 2 ^ 31"
  shows "error = JVMTI_ERROR_NONE \<and>
         (\<exists>env rs.
            getSpecialJvmti h = Some env \<and>
            add_all h (filter (wanted_class h) classes)
              (s\<lparr>trackingEnv := Some env, currentKlassTag := 0, klass_list := None\<rparr>) = Inr s' \<and>
            registry s' rs \<and>
            map snd rs =
              rev (numbered 0 (map (\<lambda>k. snd (classSignature h k)) (filter (wanted_class h) classes))) \<and>
            distinct (map tag_of rs) \<and>
            currentKlassTag s' = of_nat (length (filter (wanted_class h) classes)) \<and>
            trackingEnv s' = Some (tagged_env h env 0 (filter (wanted_class h) classes)))"
proof -
  let ?ks = "filter (wanted_class h) classes"
  from init loaded obtain env where env: "getSpecialJvmti h = Some env"
    and err: "error = JVMTI_ERROR_NONE"
    and loop: "initialize_loop h classes
        (s\<lparr>trackingEnv := Some env, currentKlassTag := 0, klass_list := None\<rparr>) = Inr s'"
    by (auto simp: classTrack_initialize_def Let_def split: option.splits if_splits)
  let ?s1 = "s\<lparr>trackingEnv := Some env, currentKlassTag := 0, klass_list := None\<rparr>"
  from loop have all: "add_all h ?ks ?s1 = Inr s'"
    by (simp add: initialize_loop_add_all)
  have reg1: "registry ?s1 []" by (simp add: registry_def)
  from add_all_registry [OF all reg1 sound, of env]
  obtain rs where rs: "registry s' rs"
    "map snd rs = rev (numbered 0 (map (\<lambda>k. snd (classSignature h k)) ?ks))"
    "currentKlassTag s' = of_nat (length ?ks)"
    "trackingEnv s' = Some (tagged_env h env 0 ?ks)"
    by auto
  have "length ?ks < 2 ^ 31"
    by (rule le_less_trans [OF length_filter_le count])
  then have "length ?ks < 2 ^ 64" by simp
  then have "length (map (\<lambda>k. snd (classSignature h k)) ?ks) < 2 ^ 64" by simp
  then have "distinct (map fst (numbered (0::jlong) (map (\<lambda>k. snd (classSignature h k)) ?ks)))"
    by (rule numbered_tags_distinct)
  then have "distinct (map fst (map snd rs))"
    by (simp add: rs(2) rev_map [symmetric] del: map_map)
  moreover have "map tag_of rs = map fst (map snd rs)"
    by (simp add: tag_of_def)
  ultimately have "distinct (map tag_of rs)"
    by (simp del: map_map)
  with err env all rs show ?thesis by blast
qed

theorem C7_initialize_tracks_prepared_classes_witness:
  "classTrack_initialize (demo_host [1, 2, 3]) initial_tracker = Inr demo_tracker \<and>
   (\<exists>rs. registry demo_tracker rs \<and>
      map snd rs = [(3, ''LC;''), (2, ''LB;''), (1, ''LA;'')] \<and>
      distinct (map tag_of rs)) \<and>
   currentKlassTag demo_tracker = 3"
proof -
  have init: "classTrack_initialize (demo_host [1, 2, 3]) initial_tracker = Inr demo_tracker"
    by (simp add: classTrack_initialize_def classTrack_addPreparedClass_def Let_def
        initial_tracker_def JVMTI_CLASS_STATUS_PREPARED_def JVMTI_CLASS_STATUS_ARRAY_def
        demo_defs)
  have loaded: "allLoadedClasses (demo_host [1, 2, 3]) = (JVMTI_ERROR_NONE, [0, 1, 2, 3])"
    by (simp add: demo_host_def)
  have wanted: "filter (wanted_class (demo_host [1, 2, 3])) [0, 1, 2, 3] = [1, 2, 3]"
    by (simp add: wanted_class_def has_flag_def demo_host_def
        JVMTI_CLASS_STATUS_PREPARED_def JVMTI_CLASS_STATUS_ARRAY_def)
  from C7_initialize_tracks_prepared_classes [OF init demo_allocator_sound loaded] init wanted
  show ?thesis
    by (simp add: demo_defs)
qed

section \<open>The claims about the tags\<close>




text \<open>
  Claim C10, as stated, fails for the same reason: the \<open>2^64\<close>-th insertion increments the
  counter from \<open>2^64 - 1\<close> to 0 and the record it inserts carries the tag zero.
\<close>

theorem C10_tag_zero_after_wrap:
  "\<exists>s. lifetime wrap_host (rounds wrap_host (2 ^ 64 - 1) @ [AddPreparedClass wrap_host 1])
          initial_tracker = Some (Inr s) \<and>
        registry s [(1, 0, ''LA;'')]"
proof -
  let ?s1 = "initial_tracker\<lparr>trackingEnv := Some (), currentKlassTag := 0,
    klass_list := None\<rparr> :: unit tracker"
  have "idle ?s1" by (simp add: idle_def initial_tracker_def)
  from collecting_rounds [OF collecting_wrap_host(1) this, of "2 ^ 64 - 1"]
  obtain s' where run: "run_calls (rounds wrap_host (2 ^ 64 - 1)) ?s1 = Some (Inr s')"
    and idle': "idle s'" and tag': "currentKlassTag s' = of_nat (2 ^ 64 - 1)"
    by auto
  from collecting_add [OF collecting_wrap_host(1) idle', of 1]
  obtain s where add: "classTrack_addPreparedClass wrap_host s' 1 = Inr s"
    and reg: "registry s [(1, currentKlassTag s' + 1, snd (classSignature wrap_host 1))]"
    by blast
  have "currentKlassTag s' + 1 = of_nat (Suc (2 ^ 64 - 1))"
    by (simp only: tag' of_nat_Suc add.commute)
  also have "Suc (2 ^ 64 - 1) = (2::nat) ^ 64" by simp
  finally have "currentKlassTag s' + 1 = 0" by (simp only: of_nat_wrap)
  with reg have "registry s [(1, 0, ''LA;'')]"
    by (simp add: wrap_host_def)
  moreover have "lifetime wrap_host (rounds wrap_host (2 ^ 64 - 1) @ [AddPreparedClass wrap_host 1])
      initial_tracker = Some (Inr s)"
    using run add by (simp only: lifetime_def wrap_host_initialize run_calls_append) simp
  ultimately show ?thesis by blast
qed

text \<open>
  Claim C10, amended. In a life of the tracker with allocators that hand out unused memory
  and with fewer than \<open>2^64\<close> insertions (those of the initialization included), the list is
  a chain of records and none of them has the tag zero.
\<close>

theorem C10_tag_zero_not_allocated_until_wrap:
  assumes run: "lifetime h0 calls s0 = Some (Inr s)"
      and sound: "sound_allocator h0" "\<forall>c \<in> set calls. sound_allocator (host_of c)"
      and bound: "allocations h0 calls < 2 ^ 64"
  shows "\<exists>rs. registry s rs \<and> (\<forall>r \<in> set rs. tag_of r \<noteq> 0)"
proof -
  from lifetime_tags_inv [OF run sound]
  obtain rs where reg: "registry s rs"
    and tags: "\<forall>r \<in> set rs. \<exists>i. 0 < i \<and> i \<le> allocations h0 calls \<and> tag_of r = of_nat i"
    by (auto simp: tags_inv_def)
  have "tag_of r \<noteq> 0" if "r \<in> set rs" for r
  proof -
    from that tags obtain i where i: "0 < i" "i \<le> allocations h0 calls" "tag_of r = of_nat i"
      by blast
    with bound have "i < 2 ^ LENGTH(64)" by simp
    with i(1) have "(of_nat i :: jlong) \<noteq> 0" by (rule of_nat_neq_0)
    with i(3) show ?thesis by simp
  qed
  with reg show ?thesis by blast
qed

theorem C10_tag_zero_not_allocated_until_wrap_witness:
  "\<exists>s. lifetime (demo_host [1, 2, 3]) demo_calls initial_tracker = Some (Inr s) \<and>
      (\<exists>rs. registry s rs \<and> (\<forall>r \<in> set rs. tag_of r \<noteq> 0))"
proof -
  have "\<exists>s. lifetime (demo_host [1, 2, 3]) demo_calls initial_tracker = Some (Inr s)"
    by (simp add: lifetime_def demo_calls_def classTrack_initialize_def
        classTrack_addPreparedClass_def classTrack_processUnloads_def processUnloads_loop.simps
        deleteList_def deleteList_loop.simps isClassUnloaded_def write_slot_def read_slot_def
        bagCreateBag_def bagAdd_def Let_def initial_tracker_def
        JVMTI_CLASS_STATUS_PREPARED_def JVMTI_CLASS_STATUS_ARRAY_def demo_defs)
  then obtain s where run: "lifetime (demo_host [1, 2, 3]) demo_calls initial_tracker = Some (Inr s)"
    by blast
  have sound: "\<forall>c \<in> set demo_calls. sound_allocator (host_of c)"
    by (simp add: demo_calls_def demo_allocator_sound)
  have bound: "allocations (demo_host [1, 2, 3]) demo_calls < 2 ^ 64"
    by (simp add: allocations_def demo_calls_def demo_host_def wanted_class_def has_flag_def
        JVMTI_CLASS_STATUS_PREPARED_def JVMTI_CLASS_STATUS_ARRAY_def)
  from C10_tag_zero_not_allocated_until_wrap [OF run demo_allocator_sound sound bound] run
  show ?thesis by blast
qed

section \<open>The claim about the reset\<close>

text \<open>
  Claim C9, as stated, fails: the body of \<open>classTrack_reset\<close> is empty. After a reset of the
  state with three tracked classes the three records are still the registry, their nodes are
  still allocated and the JVMTI environment is still held.
\<close>

theorem C9_reset_releases_nothing:
  "registry (classTrack_reset demo_tracker) demo_records \<and>
   fst ` set demo_records \<subseteq> dom (node_heap (classTrack_reset demo_tracker)) \<and>
   trackingEnv (classTrack_reset demo_tracker) = Some demo_env"
  by (simp add: classTrack_reset_def registry_def demo_defs)

text \<open>
  Claim C9, amended. \<open>classTrack_reset\<close> returns with the state as it was: it releases no
  record and leaves the JVMTI environment open.
\<close>

theorem C9_reset_does_nothing: "classTrack_reset s = s"
  by (simp add: classTrack_reset_def)

end
